theory Spec2Isabelle
  imports Complex_Main "HOL-Library.Word"
begin

section \<open>Common data\<close>

text \<open>
  A JavaScript \<open>Buffer\<close> (or \<open>Uint8Array\<close>) is a list of bytes. Thrown JavaScript
  exceptions are values of \<open>exn\<close>; a fallible function returns \<open>exn + 'a\<close>.
\<close>

type_synonym byte = "8 word"
type_synonym Buffer = "byte list"

datatype exn = Error string | TypeError string

section \<open>packages/evm/src/exceptions.ts\<close>

datatype ERROR =
    OUT_OF_GAS
  | CODESTORE_OUT_OF_GAS
  | STACK_UNDERFLOW
  | STACK_OVERFLOW
  | INVALID_JUMP
  | INVALID_OPCODE
  | OUT_OF_RANGE
  | REVERT
  | STATIC_STATE_CHANGE
  | INTERNAL_ERROR
  | CREATE_COLLISION
  | STOP
  | REFUND_EXHAUSTED
  | VALUE_OVERFLOW
  | INSUFFICIENT_BALANCE
  | INVALID_BEGINSUB
  | INVALID_RETURNSUB
  | INVALID_JUMPSUB
  | INVALID_BYTECODE_RESULT
  | INVALID_EOF_FORMAT
  | INITCODE_SIZE_VIOLATION
  | AUTHCALL_UNSET
  | AUTHCALL_NONZERO_VALUEEXT
  | AUTH_INVALID_S
  | BLS_12_381_INVALID_INPUT_LENGTH
  | BLS_12_381_POINT_NOT_ON_CURVE
  | BLS_12_381_INPUT_EMPTY
  | BLS_12_381_FP_NOT_IN_FIELD

text \<open>The string value of each member of the enum.\<close>

fun ERROR_value :: "ERROR \<Rightarrow> string" where
  "ERROR_value OUT_OF_GAS = ''out of gas''"
| "ERROR_value CODESTORE_OUT_OF_GAS = ''code store out of gas''"
| "ERROR_value STACK_UNDERFLOW = ''stack underflow''"
| "ERROR_value STACK_OVERFLOW = ''stack overflow''"
| "ERROR_value INVALID_JUMP = ''invalid JUMP''"
| "ERROR_value INVALID_OPCODE = ''invalid opcode''"
| "ERROR_value OUT_OF_RANGE = ''value out of range''"
| "ERROR_value REVERT = ''revert''"
| "ERROR_value STATIC_STATE_CHANGE = ''static state change''"
| "ERROR_value INTERNAL_ERROR = ''internal error''"
| "ERROR_value CREATE_COLLISION = ''create collision''"
| "ERROR_value STOP = ''stop''"
| "ERROR_value REFUND_EXHAUSTED = ''refund exhausted''"
| "ERROR_value VALUE_OVERFLOW = ''value overflow''"
| "ERROR_value INSUFFICIENT_BALANCE = ''insufficient balance''"
| "ERROR_value INVALID_BEGINSUB = ''invalid BEGINSUB''"
| "ERROR_value INVALID_RETURNSUB = ''invalid RETURNSUB''"
| "ERROR_value INVALID_JUMPSUB = ''invalid JUMPSUB''"
| "ERROR_value INVALID_BYTECODE_RESULT = ''invalid bytecode deployed''"
| "ERROR_value INVALID_EOF_FORMAT = ''invalid EOF format''"
| "ERROR_value INITCODE_SIZE_VIOLATION = ''initcode exceeds max initcode size''"
| "ERROR_value AUTHCALL_UNSET = ''attempting to AUTHCALL without AUTH set''"
| "ERROR_value AUTHCALL_NONZERO_VALUEEXT =
     ''attempting to execute AUTHCALL with nonzero external value''"
| "ERROR_value AUTH_INVALID_S =
     ''invalid Signature: s-values greater than secp256k1n/2 are considered invalid''"
| "ERROR_value BLS_12_381_INVALID_INPUT_LENGTH = ''invalid input length''"
| "ERROR_value BLS_12_381_POINT_NOT_ON_CURVE = ''point not on curve''"
| "ERROR_value BLS_12_381_INPUT_EMPTY = ''input is empty''"
| "ERROR_value BLS_12_381_FP_NOT_IN_FIELD = ''fp point not in field''"

text \<open>\<open>class EvmError\<close>: the constructor stores the error and the fixed type tag.\<close>

record EvmError =
  error :: ERROR
  errorType :: string

definition new_EvmError :: "ERROR \<Rightarrow> EvmError" where
  "new_EvmError e = \<lparr>error = e, errorType = ''EvmError''\<rparr>"

section \<open>Precompiles 02 (SHA256) and 03 (RIPEMD160)\<close>

text \<open>
  \<open>ExecResult\<close> as the two precompiles build it: the gas used, the returned bytes and,
  on failure, the error. \<open>PrecompileInput\<close> carries the call data (absent when
  \<open>opts.data\<close> is undefined), the gas limit (a bigint) and the chain parameters, read
  through \<open>_common.param(topic, name)\<close>.
\<close>

record ExecResult =
  executionGasUsed :: int
  returnValue :: Buffer
  exceptionError :: "EvmError option"

record PrecompileInput =
  data :: "Buffer option"
  gasLimit :: int
  common_param :: "string \<Rightarrow> string \<Rightarrow> int"

text \<open>
  Modelled from the spec: \<open>OOGResult\<close> of \<open>../evm\<close> is not among the sources. The
  spec's words: out of gas "consumes all provided gas, empty return".
\<close>

definition OOGResult :: "int \<Rightarrow> ExecResult" where
  "OOGResult gasLimit' =
     \<lparr>executionGasUsed = gasLimit', returnValue = [],
      exceptionError = Some (new_EvmError OUT_OF_GAS)\<rparr>"

text \<open>
  \<open>Math.ceil(data.length / 32)\<close>: the quotient of the length by 32, rounded up. (The
  division is exact in double precision for every length a buffer can have.)
\<close>

definition Math_ceil_div32 :: "nat \<Rightarrow> int" where
  "Math_ceil_div32 n = \<lceil>real n / 32\<rceil>"

text \<open>
  \<open>setLengthLeft(msg, length)\<close> of the util package (not among the sources): pads
  \<open>msg\<close> with zero bytes on the left up to \<open>length\<close>, and keeps the last \<open>length\<close>
  bytes of a longer one.
\<close>

definition setLengthLeft :: "Buffer \<Rightarrow> nat \<Rightarrow> Buffer" where
  "setLengthLeft msg n =
     (if length msg < n then replicate (n - length msg) 0 @ msg
      else drop (length msg - n) msg)"

text \<open>
  The hash functions \<open>sha256\<close> and \<open>ripemd160\<close> come from an external library and are
  parameters of the model.
\<close>

definition precompile02 :: "(Buffer \<Rightarrow> Buffer) \<Rightarrow> PrecompileInput \<Rightarrow> exn + ExecResult" where
  "precompile02 sha256 opts =
     (case data opts of
        None \<Rightarrow> Inl (Error ''opts.data missing but required'')
      | Some d \<Rightarrow>
          (let gasUsed = common_param opts ''gasPrices'' ''sha256'';
               gasUsed = gasUsed
                 + common_param opts ''gasPrices'' ''sha256Word'' * Math_ceil_div32 (length d)
           in if gasLimit opts < gasUsed then Inr (OOGResult (gasLimit opts))
              else Inr \<lparr>executionGasUsed = gasUsed, returnValue = sha256 d,
                        exceptionError = None\<rparr>))"

definition precompile03 :: "(Buffer \<Rightarrow> Buffer) \<Rightarrow> PrecompileInput \<Rightarrow> exn + ExecResult" where
  "precompile03 ripemd160 opts =
     (case data opts of
        None \<Rightarrow> Inl (Error ''opts.data missing but required'')
      | Some d \<Rightarrow>
          (let gasUsed = common_param opts ''gasPrices'' ''ripemd160'';
               gasUsed = gasUsed
                 + common_param opts ''gasPrices'' ''ripemd160Word'' * Math_ceil_div32 (length d)
           in if gasLimit opts < gasUsed then Inr (OOGResult (gasLimit opts))
              else Inr \<lparr>executionGasUsed = gasUsed,
                        returnValue = setLengthLeft (ripemd160 d) 32,
                        exceptionError = None\<rparr>))"

section \<open>Helpers of the util package\<close>

text \<open>
  Modelled from the spec: \<open>intToBuffer\<close>, \<open>bigIntToBuffer\<close>, \<open>bufferToBigInt\<close> and
  \<open>bufferToInt\<close> of the util package are not among the sources. The spec calls the
  encoding of an integer "minimal big-endian"; the helpers write the hexadecimal digits
  of the number, padded to a whole number of bytes, so that zero is the single byte 00.
  \<open>intToBuffer\<close> accepts only a non-negative safe integer, \<open>bigIntToBuffer\<close> only a
  non-negative bigint, and \<open>bufferToInt\<close> refuses a value beyond 53 bits.
\<close>

fun be_bytes :: "nat \<Rightarrow> Buffer" where
  "be_bytes n = (if n = 0 then [] else be_bytes (n div 256) @ [of_nat (n mod 256)])"

declare be_bytes.simps [simp del]

definition be_value :: "Buffer \<Rightarrow> nat" where
  "be_value bs = foldl (\<lambda>a b. a * 256 + unat b) 0 bs"

definition hex_bytes :: "nat \<Rightarrow> Buffer" where
  "hex_bytes n = (if n = 0 then [0] else be_bytes n)"

definition MAX_SAFE_INTEGER :: int where
  "MAX_SAFE_INTEGER = 9007199254740991"

definition intToBuffer :: "int \<Rightarrow> exn + Buffer" where
  "intToBuffer i =
     (if i < 0 \<or> MAX_SAFE_INTEGER < i then Inl (Error ''Received an invalid integer type'')
      else Inr (hex_bytes (nat i)))"

definition bigIntToBuffer :: "int \<Rightarrow> exn + Buffer" where
  "bigIntToBuffer num =
     (if num < 0 then Inl (Error ''Cannot convert string to buffer'')
      else Inr (hex_bytes (nat num)))"

definition bufferToBigInt :: "Buffer \<Rightarrow> int" where
  "bufferToBigInt buf = int (be_value buf)"

definition bufferToInt :: "Buffer \<Rightarrow> exn + nat" where
  "bufferToInt buf =
     (if MAX_SAFE_INTEGER < bufferToBigInt buf then Inl (Error ''Number exceeds 53 bits'')
      else Inr (be_value buf))"

section \<open>The RLP codec\<close>

text \<open>
  Modelled from the spec: the RLP codec (\<open>RLP.encode\<close>, \<open>RLP.decode\<close> of the rlp
  package) is not among the sources; the spec names it as the storage encoding and uses
  it through its interface. The model is the standard recursive-length-prefix format. A
  value to encode is a byte string or a list of values.

  \<open>encodeLength\<close> writes the first byte as a number; a payload of \<open>2 ^ 64\<close> bytes or
  more, which no JavaScript buffer can hold, would need a first byte above 255, and the
  model wraps it.
\<close>

datatype rlp_item = RBytes Buffer | RList "rlp_item list"

definition encodeLength :: "nat \<Rightarrow> nat \<Rightarrow> Buffer" where
  "encodeLength len offset =
     (if len < 56 then [of_nat (len + offset)]
      else (let hexLength = be_bytes len;
                lLength = length hexLength;
                firstByte = offset + 55 + lLength
            in of_nat firstByte # hexLength))"

fun RLP_encode :: "rlp_item \<Rightarrow> Buffer" where
  "RLP_encode (RList input) =
     (let buf = concat (map RLP_encode input) in encodeLength (length buf) 192 @ buf)"
| "RLP_encode (RBytes inputBuf) =
     (if length inputBuf = 1 \<and> unat (hd inputBuf) < 128 then inputBuf
      else encodeLength (length inputBuf) 128 @ inputBuf)"

text \<open>\<open>xs.slice(start, end)\<close> for indices that are not negative.\<close>

definition slice :: "'a list \<Rightarrow> nat \<Rightarrow> nat \<Rightarrow> 'a list" where
  "slice xs start end' = take (end' - start) (drop start xs)"

definition safeSlice :: "Buffer \<Rightarrow> nat \<Rightarrow> nat \<Rightarrow> exn + Buffer" where
  "safeSlice input start end' =
     (if end' > length input
      then Inl (Error ''invalid RLP (safeSlice): end slice of Uint8Array out-of-bounds'')
      else Inr (slice input start end'))"

definition decodeLength :: "Buffer \<Rightarrow> exn + nat" where
  "decodeLength v =
     (if v = [] then Inl (Error ''Invalid byte sequence'')
      else if hd v = 0 then Inl (Error ''invalid RLP: extra zeros'')
      else Inr (be_value v))"

text \<open>
  The decoder \<open>_decode\<close> returns the first value of its input and the bytes after it.
  The items of a list are decoded by a loop over the list's payload, \<open>decode_items\<close>
  here, which runs while bytes remain. Each round leaves fewer bytes than it found
  (\<open>decode'_remainder\<close> below); the loop of the model checks this, and that is what its
  termination proof uses.
\<close>

function decode' :: "Buffer \<Rightarrow> exn + (rlp_item \<times> Buffer)"
  and decode_items :: "Buffer \<Rightarrow> exn + rlp_item list"
where
  "decode' input =
     (if input = [] then Inl (Error ''invalid RLP: empty input'')
      else let firstByte = unat (hd input) in
      if firstByte \<le> 0x7f then Inr (RBytes (slice input 0 1), drop 1 input)
      else if firstByte \<le> 0xb7 then
        (let length' = firstByte - 0x7f in
         case (if firstByte = 0x80 then Inr [] else safeSlice input 1 length') of
           Inl e \<Rightarrow> Inl e
         | Inr data' \<Rightarrow>
             if length' = 2 \<and> unat (hd data') < 0x80
             then Inl (Error ''invalid RLP encoding: invalid prefix, single byte < 0x80 are not prefixed'')
             else Inr (RBytes data', drop length' input))
      else if firstByte \<le> 0xbf then
        (let llength = firstByte - 0xb6 in
         if length input - 1 < llength
         then Inl (Error ''invalid RLP: not enough bytes for string length'')
         else case safeSlice input 1 llength of
           Inl e \<Rightarrow> Inl e
         | Inr lengthBytes \<Rightarrow>
            (case decodeLength lengthBytes of
               Inl e \<Rightarrow> Inl e
             | Inr length' \<Rightarrow>
                 if length' \<le> 55
                 then Inl (Error ''invalid RLP: expected string length to be greater than 55'')
                 else (case safeSlice input llength (length' + llength) of
                         Inl e \<Rightarrow> Inl e
                       | Inr data' \<Rightarrow> Inr (RBytes data', drop (length' + llength) input))))
      else if firstByte \<le> 0xf7 then
        (let length' = firstByte - 0xbf in
         case safeSlice input 1 length' of
           Inl e \<Rightarrow> Inl e
         | Inr innerRemainder \<Rightarrow>
            (case decode_items innerRemainder of
               Inl e \<Rightarrow> Inl e
             | Inr decoded \<Rightarrow> Inr (RList decoded, drop length' input)))
      else
        (let llength = firstByte - 0xf6 in
         case safeSlice input 1 llength of
           Inl e \<Rightarrow> Inl e
         | Inr lengthBytes \<Rightarrow>
            (case decodeLength lengthBytes of
               Inl e \<Rightarrow> Inl e
             | Inr length' \<Rightarrow>
                 if length' < 56 then Inl (Error ''invalid RLP: encoded list too short'')
                 else let totalLength = llength + length' in
                 if totalLength > length input
                 then Inl (Error ''invalid RLP: total length is larger than the data'')
                 else (case safeSlice input llength totalLength of
                         Inl e \<Rightarrow> Inl e
                       | Inr innerRemainder \<Rightarrow>
                          (case decode_items innerRemainder of
                             Inl e \<Rightarrow> Inl e
                           | Inr decoded \<Rightarrow> Inr (RList decoded, drop totalLength input))))))"
| "decode_items innerRemainder =
     (if innerRemainder = [] then Inr []
      else case decode' innerRemainder of
        Inl e \<Rightarrow> Inl e
      | Inr (d, remainder) \<Rightarrow>
          if length remainder < length innerRemainder
          then (case decode_items remainder of
                  Inl e \<Rightarrow> Inl e
                | Inr decoded \<Rightarrow> Inr (d # decoded))
          else Inl (Error ''invalid RLP: no progress''))"
  by pat_completeness auto
termination
  by (relation "measure (\<lambda>x. case x of Inl bs \<Rightarrow> 2 * length bs | Inr bs \<Rightarrow> 2 * length bs + 1)")
     (auto simp: safeSlice_def slice_def split: if_splits)

declare decode'.simps [simp del] decode_items.simps [simp del]

text \<open>\<open>RLP.decode(input)\<close>: an empty input is the empty byte string; bytes left over are
  an error.\<close>

definition RLP_decode :: "Buffer \<Rightarrow> exn + rlp_item" where
  "RLP_decode input =
     (if input = [] then Inr (RBytes [])
      else case decode' input of
        Inl e \<Rightarrow> Inl e
      | Inr (data', remainder) \<Rightarrow>
          if remainder \<noteq> [] then Inl (Error ''invalid RLP: remainder must be zero'')
          else Inr data')"

section \<open>packages/client/lib/execution/receipt.ts: data\<close>

text \<open>
  A \<open>Log\<close> is the triple \<open>[address, topics, data]\<close>. A \<open>TxReceipt\<close> is a JavaScript
  object: a pre-Byzantium receipt has the field \<open>stateRoot\<close>, a post-Byzantium receipt
  the field \<open>status\<close>; \<open>bitvector\<close> (the logs bloom) and \<open>txType\<close> are the fields that
  the queries attach. A field that an object does not have is \<open>None\<close>.
\<close>

type_synonym Log = "Buffer \<times> Buffer list \<times> Buffer"

record TxReceipt =
  stateRoot :: "Buffer option"
  status :: "int option"
  cumulativeBlockGasUsed :: int
  bitvector :: "Buffer option"
  logs :: "Log list"
  txType :: "int option"

text \<open>
  Blocks, transactions and the chain belong to other packages. The model keeps what
  this file reads: \<open>block.hash()\<close>, \<open>block.header.number\<close>, \<open>block.transactions\<close>,
  \<open>tx.hash()\<close>, \<open>tx.type\<close>, \<open>chain.headers.height\<close> and \<open>chain.getBlock\<close>, which takes
  a block number or a block hash and throws when it finds no block.
\<close>

record TypedTransaction =
  tx_hash :: Buffer
  tx_type :: int

record BlockHeader =
  number :: int

record Block =
  header :: BlockHeader
  transactions :: "TypedTransaction list"
  hash :: Buffer

record Chain =
  blocks_by_number :: "int \<Rightarrow> Block option"
  blocks_by_hash :: "Buffer \<Rightarrow> Block option"
  headers_height :: int

definition getBlock_number :: "Chain \<Rightarrow> int \<Rightarrow> exn + Block" where
  "getBlock_number c i =
     (case blocks_by_number c i of None \<Rightarrow> Inl (Error ''block not found'') | Some b \<Rightarrow> Inr b)"

definition getBlock_hash :: "Chain \<Rightarrow> Buffer \<Rightarrow> exn + Block" where
  "getBlock_hash c h =
     (case blocks_by_hash c h of None \<Rightarrow> Inl (Error ''block not found'') | Some b \<Rightarrow> Inr b)"

text \<open>The return values of the queries, the index entry and the enums of the file.\<close>

type_synonym GetReceiptByTxHashReturn = "TxReceipt \<times> Buffer \<times> nat \<times> nat"

record GetLogsEntry =
  log' :: Log
  block :: Block
  tx :: "TypedTransaction option"
  txIndex :: nat
  logIndex :: nat

type_synonym GetLogsReturn = "GetLogsEntry list"

type_synonym TxHashIndex = "Buffer \<times> nat"

datatype IndexType = IndexType_TxHash

datatype IndexOperation = IndexOperation_Save | IndexOperation_Delete

text \<open>
  Modelled from the spec: \<open>MetaDBManager\<close> (\<open>../util/metaDBManager\<close>) is not among the
  sources. The spec's words: persistence keys \<open>Receipts:{blockHash}\<close> and
  \<open>TxHash:{txHash}\<close>, behind a narrow get/put/delete interface; \<open>get\<close> answers null for
  a key that is not stored.
\<close>

datatype DBKey = DBKey_Receipts | DBKey_TxHash

type_synonym metaDB = "DBKey \<times> Buffer \<Rightarrow> Buffer option"

definition put :: "metaDB \<Rightarrow> DBKey \<Rightarrow> Buffer \<Rightarrow> Buffer \<Rightarrow> metaDB" where
  "put d type' key value' = d((type', key) \<mapsto> value')"

definition get :: "metaDB \<Rightarrow> DBKey \<Rightarrow> Buffer \<Rightarrow> Buffer option" where
  "get d type' key = d (type', key)"

definition delete :: "metaDB \<Rightarrow> DBKey \<Rightarrow> Buffer \<Rightarrow> metaDB" where
  "delete d type' key = d((type', key) := None)"

text \<open>
  The manager: its database, chain and configuration, the three limits, and the two
  library functions that the class calls and that the sources do not hold:
  \<open>Bloom_add\<close>, which adds an element to a bloom bit vector, and \<open>JSON_byteLength\<close>,
  the byte length of the JSON text of a list of returned logs.
\<close>

record ReceiptsManager =
  db :: metaDB
  chain :: Chain
  config_txLookupLimit :: int
  GET_LOGS_LIMIT :: nat
  GET_LOGS_LIMIT_MEGABYTES :: nat
  GET_LOGS_BLOCK_RANGE_LIMIT :: nat
  Bloom_add :: "Buffer \<Rightarrow> Buffer \<Rightarrow> Buffer"
  JSON_byteLength :: "GetLogsEntry list \<Rightarrow> nat"

text \<open>The field initialisers of the class.\<close>

definition new_ReceiptsManager ::
  "metaDB \<Rightarrow> Chain \<Rightarrow> int \<Rightarrow> (Buffer \<Rightarrow> Buffer \<Rightarrow> Buffer) \<Rightarrow> (GetLogsEntry list \<Rightarrow> nat)
     \<Rightarrow> ReceiptsManager" where
  "new_ReceiptsManager d c lookupLimit bloomAdd jsonLength =
     \<lparr>db = d, chain = c, config_txLookupLimit = lookupLimit,
      GET_LOGS_LIMIT = 10000, GET_LOGS_LIMIT_MEGABYTES = 150,
      GET_LOGS_BLOCK_RANGE_LIMIT = 2500,
      Bloom_add = bloomAdd, JSON_byteLength = jsonLength\<rparr>"

section \<open>receipt.ts: the storage encodings (\<open>rlp\<close>)\<close>

text \<open>
  \<open>xs.map(f)\<close> and \<open>xs.filter(f)\<close> with a callback that may throw: the first exception
  ends the call. \<open>nth_opt\<close> is \<open>xs[i]\<close>, undefined outside the list.
\<close>

primrec map_throwing :: "('a \<Rightarrow> exn + 'b) \<Rightarrow> 'a list \<Rightarrow> exn + 'b list" where
  "map_throwing f [] = Inr []"
| "map_throwing f (x # xs) =
     (case f x of
        Inl e \<Rightarrow> Inl e
      | Inr y \<Rightarrow> (case map_throwing f xs of Inl e \<Rightarrow> Inl e | Inr ys \<Rightarrow> Inr (y # ys)))"

primrec filter_throwing :: "('a \<Rightarrow> exn + bool) \<Rightarrow> 'a list \<Rightarrow> exn + 'a list" where
  "filter_throwing f [] = Inr []"
| "filter_throwing f (x # xs) =
     (case f x of
        Inl e \<Rightarrow> Inl e
      | Inr keep \<Rightarrow>
          (case filter_throwing f xs of
             Inl e \<Rightarrow> Inl e
           | Inr ys \<Rightarrow> Inr (if keep then x # ys else ys)))"

definition nth_opt :: "'a list \<Rightarrow> nat \<Rightarrow> 'a option" where
  "nth_opt xs i = (if i < length xs then Some (xs ! i) else None)"

text \<open>
  \<open>bufArrToArr\<close> and \<open>arrToBufArr\<close> convert between nested arrays of \<open>Buffer\<close> and of
  \<open>Uint8Array\<close> and change no byte. Encoding takes a typed value to the nested array
  that the codec writes; decoding casts the nested array that the codec read
  (\<open>as Log[]\<close>, \<open>as rlpReceipt[]\<close>, \<open>as rlpTxHash\<close>). The code does not check the shape
  of what it casts; in the model a stored value of another shape is an error.
\<close>

definition Log_to_rlp :: "Log \<Rightarrow> rlp_item" where
  "Log_to_rlp l =
     (case l of (address, topics, data') \<Rightarrow>
        RList [RBytes address, RList (map RBytes topics), RBytes data'])"

fun rlp_to_Buffer :: "rlp_item \<Rightarrow> exn + Buffer" where
  "rlp_to_Buffer (RBytes b) = Inr b"
| "rlp_to_Buffer (RList xs) = Inl (TypeError ''not a Buffer'')"

fun rlp_to_Log :: "rlp_item \<Rightarrow> exn + Log" where
  "rlp_to_Log (RList (RBytes address # RList topics # RBytes data' # rest)) =
     (case map_throwing rlp_to_Buffer topics of
        Inl e \<Rightarrow> Inl e
      | Inr topics' \<Rightarrow> Inr (address, topics', data'))"
| "rlp_to_Log other = Inl (TypeError ''not a Log'')"

text \<open>\<open>rlp(RlpConvert.Encode, RlpType.Logs, value)\<close> and its inverse.\<close>

definition rlp_Encode_Logs :: "Log list \<Rightarrow> Buffer" where
  "rlp_Encode_Logs value' = RLP_encode (RList (map Log_to_rlp value'))"

definition rlp_Decode_Logs :: "Buffer \<Rightarrow> exn + Log list" where
  "rlp_Decode_Logs value' =
     (case RLP_decode value' of
        Inl e \<Rightarrow> Inl e
      | Inr (RBytes b) \<Rightarrow> Inl (TypeError ''not a Log[]'')
      | Inr (RList items) \<Rightarrow> map_throwing rlp_to_Log items)"

text \<open>
  \<open>rlp(RlpConvert.Encode, RlpType.Receipts, value)\<close>: each receipt becomes
  \<open>[stateRoot ?? intToBuffer(status), bigIntToBuffer(cumulativeBlockGasUsed), logs]\<close>,
  where the third field is the buffer holding the encoded logs.
\<close>

definition Receipt_to_rlp :: "TxReceipt \<Rightarrow> exn + rlp_item" where
  "Receipt_to_rlp r =
     (case (case stateRoot r of
              Some sr \<Rightarrow> Inr sr
            | None \<Rightarrow>
               (case status r of
                  None \<Rightarrow> Inl (Error ''Received an invalid integer type'')
                | Some s \<Rightarrow> intToBuffer s)) of
        Inl e \<Rightarrow> Inl e
      | Inr postStateOrStatus \<Rightarrow>
         (case bigIntToBuffer (cumulativeBlockGasUsed r) of
            Inl e \<Rightarrow> Inl e
          | Inr gasUsed \<Rightarrow>
              Inr (RList [RBytes postStateOrStatus, RBytes gasUsed,
                          RBytes (rlp_Encode_Logs (logs r))])))"

definition rlp_Encode_Receipts :: "TxReceipt list \<Rightarrow> exn + Buffer" where
  "rlp_Encode_Receipts value' =
     (case map_throwing Receipt_to_rlp value' of
        Inl e \<Rightarrow> Inl e
      | Inr items \<Rightarrow> Inr (RLP_encode (RList items)))"

text \<open>
  \<open>rlp(RlpConvert.Decode, RlpType.Receipts, value)\<close>: a first field of 32 bytes makes a
  pre-Byzantium receipt, any other a post-Byzantium receipt.
\<close>

fun rlp_to_Receipt :: "rlp_item \<Rightarrow> exn + TxReceipt" where
  "rlp_to_Receipt (RList (RBytes r0 # RBytes gasUsed # RBytes r2 # rest)) =
     (case rlp_Decode_Logs r2 of
        Inl e \<Rightarrow> Inl e
      | Inr logs' \<Rightarrow>
          if length r0 = 32
          then Inr \<lparr>stateRoot = Some r0, status = None,
                    cumulativeBlockGasUsed = bufferToBigInt gasUsed,
                    bitvector = None, logs = logs', txType = None\<rparr>
          else (case bufferToInt r0 of
                  Inl e \<Rightarrow> Inl e
                | Inr s \<Rightarrow>
                    Inr \<lparr>stateRoot = None, status = Some (int s),
                         cumulativeBlockGasUsed = bufferToBigInt gasUsed,
                         bitvector = None, logs = logs', txType = None\<rparr>))"
| "rlp_to_Receipt other = Inl (TypeError ''not an rlpReceipt'')"

definition rlp_Decode_Receipts :: "Buffer \<Rightarrow> exn + TxReceipt list" where
  "rlp_Decode_Receipts value' =
     (case RLP_decode value' of
        Inl e \<Rightarrow> Inl e
      | Inr (RBytes b) \<Rightarrow> Inl (TypeError ''not an rlpReceipt[]'')
      | Inr (RList decoded) \<Rightarrow> map_throwing rlp_to_Receipt decoded)"

text \<open>\<open>rlp(RlpConvert.Encode, RlpType.TxHash, value)\<close> and its inverse.\<close>

definition rlp_Encode_TxHash :: "TxHashIndex \<Rightarrow> exn + Buffer" where
  "rlp_Encode_TxHash value' =
     (case value' of (blockHash, txIndex') \<Rightarrow>
        (case intToBuffer (int txIndex') of
           Inl e \<Rightarrow> Inl e
         | Inr i \<Rightarrow> Inr (RLP_encode (RList [RBytes blockHash, RBytes i]))))"

fun rlp_to_TxHash :: "rlp_item \<Rightarrow> exn + TxHashIndex" where
  "rlp_to_TxHash (RList (RBytes blockHash # RBytes txIndex' # rest)) =
     (case bufferToInt txIndex' of
        Inl e \<Rightarrow> Inl e
      | Inr i \<Rightarrow> Inr (blockHash, i))"
| "rlp_to_TxHash other = Inl (TypeError ''not an rlpTxHash'')"

definition rlp_Decode_TxHash :: "Buffer \<Rightarrow> exn + TxHashIndex" where
  "rlp_Decode_TxHash value' =
     (case RLP_decode value' of Inl e \<Rightarrow> Inl e | Inr decoded \<Rightarrow> rlp_to_TxHash decoded)"

section \<open>receipt.ts: the operations of \<open>ReceiptsManager\<close>\<close>

text \<open>
  \<open>logsBloom(logs)\<close>: a new bloom (2048 zero bits), to which the address and then the
  topics of each log are added, in order.
\<close>

definition new_Bloom :: Buffer where
  "new_Bloom = replicate 256 0"

definition logsBloom :: "ReceiptsManager \<Rightarrow> Log list \<Rightarrow> Buffer" where
  "logsBloom m logs' =
     foldl (\<lambda>bloom l. foldl (Bloom_add m) (Bloom_add m bloom (fst l)) (fst (snd l)))
       new_Bloom logs'"

text \<open>
  \<open>updateIndex\<close>. The asynchronous calls are run in their program order. The function
  answers the manager it leaves and the exception it ended with, if any: the writes made
  before an exception stay.

  The \<open>Delete\<close> operation removes the entry of each transaction of the block. The
  \<open>Save\<close> operation writes \<open>TxHash:{tx.hash} \<rightarrow> [block.hash, i]\<close> for each transaction
  when the lookup limit is 0 or the block is within the limit, and then, with a
  positive limit, deletes the entries of the block at height
  \<open>chain.headers.height - txLookupLimit\<close> unless that height is negative.
\<close>

fun delete_TxHash_indexes :: "TypedTransaction list \<Rightarrow> metaDB \<Rightarrow> metaDB" where
  "delete_TxHash_indexes [] d = d"
| "delete_TxHash_indexes (tx' # txs) d =
     delete_TxHash_indexes txs (delete d DBKey_TxHash (tx_hash tx'))"

fun save_TxHash_indexes ::
  "Buffer \<Rightarrow> nat \<Rightarrow> TypedTransaction list \<Rightarrow> metaDB \<Rightarrow> exn option \<times> metaDB" where
  "save_TxHash_indexes blockHash i [] d = (None, d)"
| "save_TxHash_indexes blockHash i (tx' # txs) d =
     (case rlp_Encode_TxHash (blockHash, i) of
        Inl e \<Rightarrow> (Some e, d)
      | Inr encoded \<Rightarrow>
          save_TxHash_indexes blockHash (Suc i) txs (put d DBKey_TxHash (tx_hash tx') encoded))"

definition updateIndex ::
  "IndexOperation \<Rightarrow> IndexType \<Rightarrow> Block \<Rightarrow> ReceiptsManager \<Rightarrow> exn option \<times> ReceiptsManager" where
  "updateIndex operation type' value' m =
     (case type' of IndexType_TxHash \<Rightarrow>
        (let block' = value' in
         case operation of
           IndexOperation_Save \<Rightarrow>
             (let withinTxLookupLimit =
                    (config_txLookupLimit m = 0
                     \<or> headers_height (chain m) - config_txLookupLimit m < number (header block'));
                  (err, d) =
                    (if withinTxLookupLimit
                     then save_TxHash_indexes (hash block') 0 (transactions block') (db m)
                     else (None, db m));
                  m1 = m\<lparr>db := d\<rparr>
              in case err of
                   Some e \<Rightarrow> (Some e, m1)
                 | None \<Rightarrow>
                     if config_txLookupLimit m > 0 then
                       (let limit = headers_height (chain m) - config_txLookupLimit m in
                        if limit < 0 then (None, m1)
                        else (case getBlock_number (chain m) limit of
                                Inl e \<Rightarrow> (Some e, m1)
                              | Inr blockDelIndexes \<Rightarrow>
                                  (None, m1\<lparr>db := delete_TxHash_indexes
                                                     (transactions blockDelIndexes) d\<rparr>)))
                     else (None, m1))
         | IndexOperation_Delete \<Rightarrow>
             (None, m\<lparr>db := delete_TxHash_indexes (transactions block') (db m)\<rparr>)))"

text \<open>\<open>getIndex\<close>: the decoded entry, or null when the key is not stored.\<close>

definition getIndex :: "ReceiptsManager \<Rightarrow> IndexType \<Rightarrow> Buffer \<Rightarrow> exn + TxHashIndex option" where
  "getIndex m type' value' =
     (case type' of IndexType_TxHash \<Rightarrow>
        (case get (db m) DBKey_TxHash value' of
           None \<Rightarrow> Inr None
         | Some encoded \<Rightarrow>
             (case rlp_Decode_TxHash encoded of Inl e \<Rightarrow> Inl e | Inr i \<Rightarrow> Inr (Some i))))"

text \<open>
  \<open>saveReceipts\<close>: encode, put, and update the index. The call to \<open>updateIndex\<close> is
  not awaited (\<open>void\<close>), so an exception of \<open>updateIndex\<close> does not reach the caller.
\<close>

definition saveReceipts :: "ReceiptsManager \<Rightarrow> Block \<Rightarrow> TxReceipt list \<Rightarrow> exn + ReceiptsManager" where
  "saveReceipts m block' receipts =
     (case rlp_Encode_Receipts receipts of
        Inl e \<Rightarrow> Inl e
      | Inr encoded \<Rightarrow>
          Inr (snd (updateIndex IndexOperation_Save IndexType_TxHash block'
                      (m\<lparr>db := put (db m) DBKey_Receipts (hash block') encoded\<rparr>))))"

text \<open>\<open>getReceipts(blockHash, calcBloom = false, includeTxType = false)\<close>.\<close>

definition getReceipts :: "ReceiptsManager \<Rightarrow> Buffer \<Rightarrow> bool \<Rightarrow> bool \<Rightarrow> exn + TxReceipt list" where
  "getReceipts m blockHash calcBloom includeTxType =
     (case get (db m) DBKey_Receipts blockHash of
        None \<Rightarrow> Inr []
      | Some encoded \<Rightarrow>
         (case rlp_Decode_Receipts encoded of
            Inl e \<Rightarrow> Inl e
          | Inr receipts \<Rightarrow>
             (let receipts =
                    (if calcBloom
                     then map (\<lambda>r. r\<lparr>bitvector := Some (logsBloom m (logs r))\<rparr>) receipts
                     else receipts)
              in if includeTxType then
                   (case getBlock_hash (chain m) blockHash of
                      Inl e \<Rightarrow> Inl e
                    | Inr block' \<Rightarrow>
                        map_throwing
                          (\<lambda>(i, r). case nth_opt (transactions block') i of
                                      None \<Rightarrow> Inl (TypeError ''Cannot read properties of undefined'')
                                    | Some t \<Rightarrow> Inr (r\<lparr>txType := Some (tx_type t)\<rparr>))
                          (enumerate 0 receipts))
                 else Inr receipts)))"

text \<open>\<open>getReceiptByTxHash\<close>: null when the index has no entry for the hash or the block
  of the entry has no receipts.\<close>

definition getReceiptByTxHash ::
  "ReceiptsManager \<Rightarrow> Buffer \<Rightarrow> exn + GetReceiptByTxHashReturn option" where
  "getReceiptByTxHash m txHash =
     (case getIndex m IndexType_TxHash txHash of
        Inl e \<Rightarrow> Inl e
      | Inr None \<Rightarrow> Inr None
      | Inr (Some (blockHash, txIndex')) \<Rightarrow>
         (case getReceipts m blockHash False False of
            Inl e \<Rightarrow> Inl e
          | Inr receipts \<Rightarrow>
              if length receipts = 0 then Inr None
              else
                (let logIndex' = sum_list (map (\<lambda>r. length (logs r)) (slice receipts 0 txIndex'))
                 in case nth_opt receipts txIndex' of
                      None \<Rightarrow> Inl (TypeError ''Cannot read properties of undefined'')
                    | Some receipt \<Rightarrow>
                        Inr (Some (receipt\<lparr>bitvector := Some (logsBloom m (logs receipt))\<rparr>,
                                   blockHash, txIndex', logIndex')))))"

text \<open>
  \<open>getLogs\<close>. A topic of the filter is null, a value, or an array of values.
  \<open>a.equals(b)\<close> throws a \<open>TypeError\<close> when \<open>b\<close> is undefined, as \<open>l.log[1][i]\<close> is
  when the log has no topic at index \<open>i\<close>. \<open>topic.find(...)\<close> answers the first
  element for which the callback holds, or undefined.
\<close>

datatype topic_filter = Topic_null | Topic_value Buffer | Topic_array "Buffer list"

definition Buffer_equals :: "Buffer \<Rightarrow> Buffer option \<Rightarrow> exn + bool" where
  "Buffer_equals a other =
     (case other of
        None \<Rightarrow> Inl (TypeError ''The otherBuffer argument must be an instance of Buffer or Uint8Array'')
      | Some b \<Rightarrow> Inr (a = b))"

fun find_equals :: "Buffer list \<Rightarrow> Buffer option \<Rightarrow> exn + Buffer option" where
  "find_equals [] other = Inr None"
| "find_equals (t # ts) other =
     (case Buffer_equals t other of
        Inl e \<Rightarrow> Inl e
      | Inr True \<Rightarrow> Inr (Some t)
      | Inr False \<Rightarrow> find_equals ts other)"

text \<open>
  The callback of the topics filter: a loop over \<open>topics.entries()\<close> whose body ends
  with \<open>return true\<close>. Every path through the body returns, so the callback answers in
  the first round, at index 0; a loop that makes no round answers undefined, which
  \<open>filter\<close> reads as false.
\<close>

fun topics_match :: "(topic_filter list) \<Rightarrow> GetLogsEntry \<Rightarrow> exn + bool" where
  "topics_match [] l = Inr False"
| "topics_match (topic # rest) l =
     (let i = 0 :: nat in
      case topic of
        Topic_array ts \<Rightarrow>
          (case find_equals ts (nth_opt (fst (snd (log' l))) i) of
             Inl e \<Rightarrow> Inl e
           | Inr None \<Rightarrow> Inr False
           | Inr (Some t) \<Rightarrow> Inr True)
      | Topic_null \<Rightarrow> Inr True
      | Topic_value t \<Rightarrow>
          (case Buffer_equals t (nth_opt (fst (snd (log' l))) i) of
             Inl e \<Rightarrow> Inl e
           | Inr False \<Rightarrow> Inr False
           | Inr True \<Rightarrow> Inr True))"

text \<open>
  The entries of one block: the logs of its receipts in order, each with its block,
  its transaction, the index of its receipt and its running index in the block.
\<close>

fun block_entries :: "Block \<Rightarrow> nat \<Rightarrow> nat \<Rightarrow> TxReceipt list \<Rightarrow> GetLogsEntry list" where
  "block_entries block' receiptIndex logIndex' [] = []"
| "block_entries block' receiptIndex logIndex' (receipt # rest) =
     map (\<lambda>(k, l). \<lparr>log' = l, block = block',
                     tx = nth_opt (transactions block') receiptIndex,
                     txIndex = receiptIndex, logIndex = k\<rparr>)
         (enumerate logIndex' (logs receipt))
     @ block_entries block' (Suc receiptIndex) (logIndex' + length (logs receipt)) rest"

text \<open>
  One round of the loop over block numbers, up to the filtered \<open>logs\<close>; \<open>None\<close> is the
  \<open>continue\<close> of a block without receipts.
\<close>

definition getLogs_block ::
  "ReceiptsManager \<Rightarrow> int \<Rightarrow> Buffer list option \<Rightarrow> topic_filter list
     \<Rightarrow> exn + GetLogsEntry list option" where
  "getLogs_block m i addresses topics =
     (case getBlock_number (chain m) i of
        Inl e \<Rightarrow> Inl e
      | Inr block' \<Rightarrow>
         (case getReceipts m (hash block') False False of
            Inl e \<Rightarrow> Inl e
          | Inr receipts \<Rightarrow>
              if length receipts = 0 then Inr None
              else
                (let logs' = block_entries block' 0 0 receipts;
                     logs' = (case addresses of
                                None \<Rightarrow> logs'
                              | Some as \<Rightarrow>
                                  if length as > 0
                                  then filter (\<lambda>l. list_ex (\<lambda>a. a = fst (log' l)) as) logs'
                                  else logs')
                 in if length topics > 0
                    then (case filter_throwing (topics_match topics) logs' of
                            Inl e \<Rightarrow> Inl e
                          | Inr logs'' \<Rightarrow> Inr (Some logs''))
                    else Inr (Some logs'))))"

function getLogs_loop ::
  "ReceiptsManager \<Rightarrow> int \<Rightarrow> int \<Rightarrow> Buffer list option \<Rightarrow> topic_filter list
     \<Rightarrow> GetLogsEntry list \<Rightarrow> nat \<Rightarrow> exn + GetLogsReturn" where
  "getLogs_loop m i to' addresses topics returnedLogs returnedLogsSize =
     (if i \<le> to' then
        (case getLogs_block m i addresses topics of
           Inl e \<Rightarrow> Inl e
         | Inr None \<Rightarrow>
             getLogs_loop m (i + 1) to' addresses topics returnedLogs returnedLogsSize
         | Inr (Some logs') \<Rightarrow>
            (let returnedLogs' = returnedLogs @ logs';
                 returnedLogsSize' = returnedLogsSize + JSON_byteLength m logs'
             in if length returnedLogs' \<ge> GET_LOGS_LIMIT m
                   \<or> returnedLogsSize' \<ge> GET_LOGS_LIMIT_MEGABYTES m * 1048576
                then Inr returnedLogs'
                else getLogs_loop m (i + 1) to' addresses topics returnedLogs' returnedLogsSize'))
      else Inr returnedLogs)"
  by pat_completeness auto
termination
  by (relation "measure (\<lambda>(m, i, to', addresses, topics, returnedLogs, returnedLogsSize).
                  nat (to' + 1 - i))") auto

declare getLogs_loop.simps [simp del]

definition getLogs ::
  "ReceiptsManager \<Rightarrow> Block \<Rightarrow> Block \<Rightarrow> Buffer list option \<Rightarrow> topic_filter list
     \<Rightarrow> exn + GetLogsReturn" where
  "getLogs m from' to' addresses topics =
     getLogs_loop m (number (header from')) (number (header to')) addresses topics [] 0"

section \<open>receipt.ts: receipts as the store keeps them\<close>

text \<open>
  The two shapes of a receipt: pre-Byzantium with a state root of 32 bytes, post-Byzantium
  with a status that \<open>intToBuffer\<close> accepts (a safe integer that is not negative). The
  store keeps the state root or status, the gas used and the logs; \<open>persisted\<close> is a
  receipt without the fields that only the queries attach. \<open>receipt_item\<close> is the
  nested array written for a receipt of one of the two shapes.
\<close>

definition isPreByzantium :: "TxReceipt \<Rightarrow> bool" where
  "isPreByzantium r =
     ((case stateRoot r of Some sr \<Rightarrow> length sr = 32 | None \<Rightarrow> False) \<and> status r = None)"

definition isPostByzantium :: "TxReceipt \<Rightarrow> bool" where
  "isPostByzantium r =
     (stateRoot r = None
      \<and> (case status r of Some s \<Rightarrow> 0 \<le> s \<and> s \<le> MAX_SAFE_INTEGER | None \<Rightarrow> False))"

definition persisted :: "TxReceipt \<Rightarrow> TxReceipt" where
  "persisted r = r\<lparr>bitvector := None, txType := None\<rparr>"

definition receipt_item :: "TxReceipt \<Rightarrow> rlp_item" where
  "receipt_item r =
     RList [RBytes (case stateRoot r of Some sr \<Rightarrow> sr
                    | None \<Rightarrow> hex_bytes (nat (the (status r)))),
            RBytes (hex_bytes (nat (cumulativeBlockGasUsed r))),
            RBytes (rlp_Encode_Logs (logs r))]"

text \<open>
  An upper bound of the length of an encoding, computed from the lengths of the data
  alone. It is far from sharp; its use is to show that the encoding of given data is
  shorter than \<open>2 ^ 64\<close> bytes without computing the encoding.
\<close>

fun rlp_bound :: "rlp_item \<Rightarrow> nat" where
  "rlp_bound (RBytes b) = 2 * length b + 1"
| "rlp_bound (RList xs) = 2 * sum_list (map rlp_bound xs) + 1"

definition Receipt_bound :: "TxReceipt \<Rightarrow> nat" where
  "Receipt_bound r =
     2 * (65 + (2 * (nat (cumulativeBlockGasUsed r) + 1) + 1)
            + (2 * rlp_bound (RList (map Log_to_rlp (logs r))) + 1)) + 1"

definition Receipts_bound :: "TxReceipt list \<Rightarrow> nat" where
  "Receipts_bound rs = 2 * sum_list (map Receipt_bound rs) + 1"

section \<open>receipt.ts: what a save leaves in the index\<close>

text \<open>
  \<open>TxHash_entry blockHash i\<close> is the stored value of the index entry
  \<open>[blockHash, i]\<close>, as \<open>rlp(Encode, TxHash, ...)\<close> writes it for an index that is a
  safe integer. \<open>saved_index_db\<close> is the database that \<open>updateIndex\<close> leaves after a
  \<open>Save\<close> that met no exception before its end.
\<close>

definition TxHash_entry :: "Buffer \<Rightarrow> nat \<Rightarrow> Buffer" where
  "TxHash_entry blockHash i = RLP_encode (RList [RBytes blockHash, RBytes (hex_bytes i)])"

definition saved_index_db :: "ReceiptsManager \<Rightarrow> Block \<Rightarrow> metaDB" where
  "saved_index_db m b =
     (let d1 = (if config_txLookupLimit m = 0
                   \<or> headers_height (chain m) - config_txLookupLimit m < number (header b)
                then snd (save_TxHash_indexes (hash b) 0 (transactions b) (db m))
                else db m)
      in if 0 < config_txLookupLimit m \<and> 0 \<le> headers_height (chain m) - config_txLookupLimit m
         then (case blocks_by_number (chain m) (headers_height (chain m) - config_txLookupLimit m) of
                 None \<Rightarrow> d1
               | Some old \<Rightarrow> delete_TxHash_indexes (transactions old) d1)
         else d1)"

section \<open>receipt.ts: what \<open>getLogs\<close> collects\<close>

text \<open>
  For stating what the loop of \<open>getLogs\<close> returns: the logs that one round adds for
  block number \<open>i\<close> (none for a block without receipts), the size that the round adds,
  whether the round reaches the check of the limits (it does not for a block without
  receipts), the check itself, and the order of the returned entries by block number,
  transaction index and log index.
\<close>

definition block_logs ::
  "ReceiptsManager \<Rightarrow> Buffer list option \<Rightarrow> topic_filter list \<Rightarrow> int \<Rightarrow> GetLogsEntry list" where
  "block_logs m addresses topics i =
     (case getLogs_block m i addresses topics of Inr (Some ls) \<Rightarrow> ls | _ \<Rightarrow> [])"

definition block_size ::
  "ReceiptsManager \<Rightarrow> Buffer list option \<Rightarrow> topic_filter list \<Rightarrow> int \<Rightarrow> nat" where
  "block_size m addresses topics i =
     (case getLogs_block m i addresses topics of
        Inr (Some ls) \<Rightarrow> JSON_byteLength m ls
      | _ \<Rightarrow> 0)"

definition block_checked ::
  "ReceiptsManager \<Rightarrow> Buffer list option \<Rightarrow> topic_filter list \<Rightarrow> int \<Rightarrow> bool" where
  "block_checked m addresses topics i =
     (case getLogs_block m i addresses topics of Inr (Some ls) \<Rightarrow> True | _ \<Rightarrow> False)"

definition limit_reached :: "ReceiptsManager \<Rightarrow> nat \<Rightarrow> nat \<Rightarrow> bool" where
  "limit_reached m count size' =
     (count \<ge> GET_LOGS_LIMIT m \<or> size' \<ge> GET_LOGS_LIMIT_MEGABYTES m * 1048576)"

definition entry_less :: "GetLogsEntry \<Rightarrow> GetLogsEntry \<Rightarrow> bool" where
  "entry_less x y =
     (number (header (block x)) < number (header (block y))
      \<or> (number (header (block x)) = number (header (block y))
          \<and> (txIndex x < txIndex y \<or> (txIndex x = txIndex y \<and> logIndex x < logIndex y))))"

section \<open>Example data\<close>

text \<open>
  A chain whose head is at height 5, with a block at height 3 (one transaction) and a
  block at height 5 (three transactions); a manager with a lookup limit of 2 whose index
  holds the transaction of the block at height 3; and three receipts for the block at
  height 5: a pre-Byzantium receipt with one log, and two post-Byzantium receipts with
  no log and with two logs.
\<close>

definition demo_old_block :: Block where
  "demo_old_block =
     \<lparr>header = \<lparr>number = 3\<rparr>,
      transactions = [\<lparr>tx_hash = replicate 32 0x01, tx_type = 0\<rparr>],
      hash = replicate 32 0xB3\<rparr>"

definition demo_block :: Block where
  "demo_block =
     \<lparr>header = \<lparr>number = 5\<rparr>,
      transactions = [\<lparr>tx_hash = replicate 32 0x11, tx_type = 0\<rparr>,
                      \<lparr>tx_hash = replicate 32 0x12, tx_type = 2\<rparr>,
                      \<lparr>tx_hash = replicate 32 0x13, tx_type = 2\<rparr>],
      hash = replicate 32 0xB5\<rparr>"

definition demo_chain :: Chain where
  "demo_chain =
     \<lparr>blocks_by_number =
        (\<lambda>i. if i = 3 then Some demo_old_block else if i = 5 then Some demo_block else None),
      blocks_by_hash =
        (\<lambda>h. if h = replicate 32 0xB3 then Some demo_old_block
              else if h = replicate 32 0xB5 then Some demo_block else None),
      headers_height = 5\<rparr>"

definition demo_Bloom_add :: "Buffer \<Rightarrow> Buffer \<Rightarrow> Buffer" where
  "demo_Bloom_add bloom e = map2 (+) bloom (e @ replicate (256 - length e) 0)"

definition demo_JSON_byteLength :: "GetLogsEntry list \<Rightarrow> nat" where
  "demo_JSON_byteLength ls = 2 + 100 * length ls"

definition demo_manager :: ReceiptsManager where
  "demo_manager =
     new_ReceiptsManager
       ((\<lambda>k. None)((DBKey_TxHash, replicate 32 0x01) \<mapsto> TxHash_entry (replicate 32 0xB3) 0))
       demo_chain 2 demo_Bloom_add demo_JSON_byteLength"

definition demo_log :: Log where
  "demo_log = (replicate 20 0xAA, [replicate 32 1, replicate 32 2], [0xDE, 0xAD])"

definition demo_receipts :: "TxReceipt list" where
  "demo_receipts =
     [\<lparr>stateRoot = Some (replicate 32 7), status = None, cumulativeBlockGasUsed = 21000,
       bitvector = None, logs = [demo_log], txType = None\<rparr>,
      \<lparr>stateRoot = None, status = Some 1, cumulativeBlockGasUsed = 63000,
       bitvector = None, logs = [], txType = None\<rparr>,
      \<lparr>stateRoot = None, status = Some 0, cumulativeBlockGasUsed = 0,
       bitvector = None, logs = [demo_log, demo_log], txType = None\<rparr>]"

text \<open>
  The example manager with the three example receipts stored under the hash of the
  block at height 5, as \<open>saveReceipts\<close> stores them.
\<close>

definition demo_stored_manager :: ReceiptsManager where
  "demo_stored_manager =
     demo_manager\<lparr>db := put (db demo_manager) DBKey_Receipts (replicate 32 0xB5)
                             (RLP_encode (RList (map receipt_item demo_receipts)))\<rparr>"

text \<open>
  A manager with \<open>GET_LOGS_LIMIT = 3\<close> whose block at height 5 has one receipt with
  100 logs.
\<close>

definition hundred_logs_receipt :: TxReceipt where
  "hundred_logs_receipt =
     \<lparr>stateRoot = None, status = Some 1, cumulativeBlockGasUsed = 21000,
      bitvector = None, logs = replicate 100 demo_log, txType = None\<rparr>"

definition hundred_logs_manager :: ReceiptsManager where
  "hundred_logs_manager =
     demo_manager\<lparr>db := put (db demo_manager) DBKey_Receipts (replicate 32 0xB5)
                             (RLP_encode (RList (map receipt_item [hundred_logs_receipt]))),
                   GET_LOGS_LIMIT := 3\<rparr>"

text \<open>
  Gas prices for the precompiles: a base price of 60 and a price of 12 per word, for
  both hashes.
\<close>

definition demo_gasPrices :: "string \<Rightarrow> string \<Rightarrow> int" where
  "demo_gasPrices topic name =
     (if name = ''sha256'' \<or> name = ''ripemd160'' then 60
      else if name = ''sha256Word'' \<or> name = ''ripemd160Word'' then 12 else 0)"

section \<open>The EVM of the custom-opcode tests\<close>

text \<open>
  Modelled from the spec: the EVM, its interpreter and its opcode table
  (\<open>packages/evm/src/evm.ts\<close>, \<open>interpreter.ts\<close>, \<open>opcodes\<close>) are not among the
  sources; only their test \<open>customOpcodes.spec.ts\<close> is. The definitions of this
  section follow the spec: the data model (Word, Stack, Memory, RunState,
  OpcodeDescriptor, OpcodeTable), the construction of the opcode table, the main loop
  of the interpreter and the execution entry \<open>runCode\<close>.
\<close>

type_synonym word256 = "256 word"

text \<open>
  The halt reasons. The exceptional ones are members of the \<open>ERROR\<close> enum; \<open>Return\<close>
  and \<open>Revert\<close> carry the returned bytes.
\<close>

datatype halt_reason =
    Halt_Stop
  | Halt_Return Buffer
  | Halt_Revert Buffer
  | Halt_Error ERROR

text \<open>
  \<open>RunState\<close>, the execution context of a call. The stack is kept as the test reads it
  (\<open>stack._store\<close>): the bottom entry first, the top entry last. A logic function halts
  by setting \<open>haltReason\<close>.
\<close>

record RunState =
  pc :: nat
  gasLeft :: int
  stack :: "word256 list"
  memory :: Buffer
  returnData :: Buffer
  code :: Buffer
  caller :: Buffer
  address :: Buffer
  callValue :: word256
  callData :: Buffer
  isStatic :: bool
  depth :: nat
  runLogs :: "Log list"
  refund :: int
  haltReason :: "halt_reason option"

text \<open>
  Stack: at most 1024 entries; \<open>push\<close> fails with a stack overflow beyond that, \<open>pop\<close>
  with a stack underflow on an empty stack. A failed operation sets the halt reason.
\<close>

definition stack_push :: "word256 \<Rightarrow> RunState \<Rightarrow> RunState" where
  "stack_push v rs =
     (if length (stack rs) \<ge> 1024 then rs\<lparr>haltReason := Some (Halt_Error STACK_OVERFLOW)\<rparr>
      else rs\<lparr>stack := stack rs @ [v]\<rparr>)"

definition stack_pop :: "RunState \<Rightarrow> (word256 \<times> RunState) option" where
  "stack_pop rs =
     (if stack rs = [] then None
      else Some (last (stack rs), rs\<lparr>stack := butlast (stack rs)\<rparr>))"

definition stack_peek :: "RunState \<Rightarrow> nat \<Rightarrow> word256" where
  "stack_peek rs i = (if i < length (stack rs) then rev (stack rs) ! i else 0)"

text \<open>
  Memory: \<open>resize(offset, length)\<close> extends the memory to
  \<open>ceil((offset + length) / 32) * 32\<close> bytes; being at \<open>w\<close> words costs
  \<open>3 * w + floor(w * w / 512)\<close>, and an expansion is charged the positive difference of
  the new and the old cost; a read past the size yields zero bytes.
\<close>

definition mem_words :: "nat \<Rightarrow> nat \<Rightarrow> nat" where
  "mem_words offset len = (offset + len + 31) div 32"

definition mem_resize :: "Buffer \<Rightarrow> nat \<Rightarrow> nat \<Rightarrow> Buffer" where
  "mem_resize mem offset len =
     (let newSize = mem_words offset len * 32
      in if length mem < newSize then mem @ replicate (newSize - length mem) 0 else mem)"

definition mem_cost :: "nat \<Rightarrow> int" where
  "mem_cost w = int (3 * w + (w * w) div 512)"

definition mem_expansion_charge :: "Buffer \<Rightarrow> nat \<Rightarrow> nat \<Rightarrow> int" where
  "mem_expansion_charge mem offset len =
     (let oldWords = (length mem + 31) div 32;
          newWords = max oldWords (mem_words offset len)
      in max 0 (mem_cost newWords - mem_cost oldWords))"

definition mem_read :: "Buffer \<Rightarrow> nat \<Rightarrow> nat \<Rightarrow> Buffer" where
  "mem_read mem offset len = take len (drop offset mem @ replicate len 0)"

definition mem_write :: "Buffer \<Rightarrow> nat \<Rightarrow> Buffer \<Rightarrow> Buffer" where
  "mem_write mem offset bytes =
     (let mem' = mem_resize mem offset (length bytes)
      in take offset mem' @ bytes @ drop (offset + length bytes) mem')"

text \<open>A word as 32 bytes, big-endian.\<close>

definition word_to_bytes32 :: "word256 \<Rightarrow> Buffer" where
  "word_to_bytes32 w = setLengthLeft (be_bytes (unat w)) 32"

text \<open>
  \<open>OpcodeDescriptor\<close>. The gas function answers the total charge of the step, the base
  fee included. \<open>minStack\<close> is the number of operands that the opcode takes and
  \<open>maxStack\<close> the number of results that it leaves.
\<close>

record OpcodeDescriptor =
  op_code :: byte
  op_name :: string
  op_baseFee :: int
  minStack :: nat
  maxStack :: nat
  isAsync :: bool
  gasFn :: "RunState \<Rightarrow> int \<Rightarrow> int"
  logicFn :: "RunState \<Rightarrow> RunState"

type_synonym opcode_table = "byte \<Rightarrow> OpcodeDescriptor option"

text \<open>
  An entry of \<open>customOpcodes\<close>, \<open>{opcode, [name, baseFee, gasFn, logicFn]}\<close>: an entry
  with only the opcode deletes the slot; an entry with the fields installs them, with
  stack bounds \<open>(0, 0)\<close> when it gives none.
\<close>

datatype AddOpcode =
    DeleteOpcode byte
  | InstallOpcode byte string int "RunState \<Rightarrow> int \<Rightarrow> int" "RunState \<Rightarrow> RunState"
      "(nat \<times> nat) option"

datatype overlay_slot = Slot_deleted | Slot_installed OpcodeDescriptor

type_synonym overlay = "byte \<Rightarrow> overlay_slot option"

fun build_overlay :: "AddOpcode list \<Rightarrow> overlay \<Rightarrow> overlay" where
  "build_overlay [] ov = ov"
| "build_overlay (DeleteOpcode c # es) ov = build_overlay es (ov(c \<mapsto> Slot_deleted))"
| "build_overlay (InstallOpcode c n fee g l bounds # es) ov =
     build_overlay es
       (ov(c \<mapsto> Slot_installed
            \<lparr>op_code = c, op_name = n, op_baseFee = fee,
             minStack = (case bounds of None \<Rightarrow> 0 | Some (lo, hi) \<Rightarrow> lo),
             maxStack = (case bounds of None \<Rightarrow> 0 | Some (lo, hi) \<Rightarrow> hi),
             isAsync = False, gasFn = g, logicFn = l\<rparr>))"

text \<open>
  An EVM holds a handle to the shared default table, its own overlay, and the list of
  custom entries it was made from. The lookup is \<open>overlay.get(op) ?? defaults.get(op)\<close>,
  and a deleted slot is undefined.
\<close>

record EVM =
  defaults :: opcode_table
  evm_overlay :: overlay
  customOpcodes :: "AddOpcode list"

definition lookup_opcode :: "EVM \<Rightarrow> byte \<Rightarrow> OpcodeDescriptor option" where
  "lookup_opcode evm c =
     (case evm_overlay evm c of
        Some Slot_deleted \<Rightarrow> None
      | Some (Slot_installed d) \<Rightarrow> Some d
      | None \<Rightarrow> defaults evm c)"

text \<open>
  Construction. The shared table \<open>DEFAULTS\<close> is given to \<open>EVM_create\<close> and given back
  by it, so that a construction that changed it would show.
\<close>

definition EVM_create :: "opcode_table \<Rightarrow> AddOpcode list \<Rightarrow> EVM \<times> opcode_table" where
  "EVM_create DEFAULTS custom =
     (\<lparr>defaults = DEFAULTS, evm_overlay = build_overlay custom (\<lambda>c. None),
       customOpcodes = custom\<rparr>, DEFAULTS)"

text \<open>
  The default opcodes that the test runs: PUSH1, ADD, MSTORE and RETURN, with the
  meaning that the comments of the test give them. Their base fees come from the chain
  rules, which the spec keeps behind a lookup; here the lookup is by opcode name.
\<close>

definition op_PUSH1 :: "(string \<Rightarrow> int) \<Rightarrow> OpcodeDescriptor" where
  "op_PUSH1 fee =
     \<lparr>op_code = 0x60, op_name = ''PUSH1'', op_baseFee = fee ''PUSH1'',
      minStack = 0, maxStack = 1, isAsync = False,
      gasFn = (\<lambda>rs baseFee'. baseFee'),
      logicFn = (\<lambda>rs. stack_push
                         (case nth_opt (code rs) (pc rs) of None \<Rightarrow> 0 | Some b \<Rightarrow> ucast b)
                         (rs\<lparr>pc := pc rs + 1\<rparr>))\<rparr>"

definition op_ADD :: "(string \<Rightarrow> int) \<Rightarrow> OpcodeDescriptor" where
  "op_ADD fee =
     \<lparr>op_code = 0x01, op_name = ''ADD'', op_baseFee = fee ''ADD'',
      minStack = 2, maxStack = 1, isAsync = False,
      gasFn = (\<lambda>rs baseFee'. baseFee'),
      logicFn = (\<lambda>rs. case stack_pop rs of
                         None \<Rightarrow> rs\<lparr>haltReason := Some (Halt_Error STACK_UNDERFLOW)\<rparr>
                       | Some (a, rs1) \<Rightarrow>
                          (case stack_pop rs1 of
                             None \<Rightarrow> rs1\<lparr>haltReason := Some (Halt_Error STACK_UNDERFLOW)\<rparr>
                           | Some (b, rs2) \<Rightarrow> stack_push (a + b) rs2))\<rparr>"

definition op_MSTORE :: "(string \<Rightarrow> int) \<Rightarrow> OpcodeDescriptor" where
  "op_MSTORE fee =
     \<lparr>op_code = 0x52, op_name = ''MSTORE'', op_baseFee = fee ''MSTORE'',
      minStack = 2, maxStack = 0, isAsync = False,
      gasFn = (\<lambda>rs baseFee'.
                 baseFee' + mem_expansion_charge (memory rs) (unat (stack_peek rs 0)) 32),
      logicFn = (\<lambda>rs. case stack_pop rs of
                         None \<Rightarrow> rs\<lparr>haltReason := Some (Halt_Error STACK_UNDERFLOW)\<rparr>
                       | Some (offset, rs1) \<Rightarrow>
                          (case stack_pop rs1 of
                             None \<Rightarrow> rs1\<lparr>haltReason := Some (Halt_Error STACK_UNDERFLOW)\<rparr>
                           | Some (v, rs2) \<Rightarrow>
                               rs2\<lparr>memory := mem_write (memory rs2) (unat offset)
                                                  (word_to_bytes32 v)\<rparr>))\<rparr>"

definition op_RETURN :: "(string \<Rightarrow> int) \<Rightarrow> OpcodeDescriptor" where
  "op_RETURN fee =
     \<lparr>op_code = 0xF3, op_name = ''RETURN'', op_baseFee = fee ''RETURN'',
      minStack = 2, maxStack = 0, isAsync = False,
      gasFn = (\<lambda>rs baseFee'.
                 baseFee' + mem_expansion_charge (memory rs) (unat (stack_peek rs 0))
                              (unat (stack_peek rs 1))),
      logicFn = (\<lambda>rs. case stack_pop rs of
                         None \<Rightarrow> rs\<lparr>haltReason := Some (Halt_Error STACK_UNDERFLOW)\<rparr>
                       | Some (offset, rs1) \<Rightarrow>
                          (case stack_pop rs1 of
                             None \<Rightarrow> rs1\<lparr>haltReason := Some (Halt_Error STACK_UNDERFLOW)\<rparr>
                           | Some (len, rs2) \<Rightarrow>
                               rs2\<lparr>memory := mem_resize (memory rs2) (unat offset) (unat len),
                                    haltReason :=
                                      Some (Halt_Return
                                              (mem_read (memory rs2) (unat offset) (unat len)))\<rparr>))\<rparr>"

definition DEFAULTS_table :: "(string \<Rightarrow> int) \<Rightarrow> opcode_table" where
  "DEFAULTS_table fee =
     (\<lambda>c. None)(0x60 \<mapsto> op_PUSH1 fee, 0x01 \<mapsto> op_ADD fee,
                 0x52 \<mapsto> op_MSTORE fee, 0xF3 \<mapsto> op_RETURN fee)"

text \<open>
  The interpreter. A step event holds the program counter, the opcode and its name, the
  gas left, the depth and a snapshot of the stack; the events are collected in the order
  in which the observers receive them.
\<close>

record InterpreterStep =
  step_pc :: nat
  step_opcode :: byte
  step_name :: string
  step_gasLeft :: int
  step_depth :: nat
  step_stack :: "word256 list"

record Interpreter =
  runState :: RunState
  events :: "InterpreterStep list"

text \<open>The opcodes that a static context refuses, by name; CALL when it carries value.\<close>

definition state_mutating :: "OpcodeDescriptor \<Rightarrow> RunState \<Rightarrow> bool" where
  "state_mutating d rs =
     (op_name d \<in> set [''SSTORE'', ''LOG0'', ''LOG1'', ''LOG2'', ''LOG3'', ''LOG4'',
                        ''CREATE'', ''CREATE2'', ''SELFDESTRUCT'']
      \<or> (op_name d = ''CALL'' \<and> stack_peek rs 2 \<noteq> 0))"

definition exceptional_halt :: "ERROR \<Rightarrow> Interpreter \<Rightarrow> halt_reason \<times> Interpreter" where
  "exceptional_halt e s = (Halt_Error e, s\<lparr>runState := (runState s)\<lparr>gasLeft := 0\<rparr>\<rparr>)"

text \<open>
  One round of the main loop, steps 1 to 9 of the spec: \<open>Inl\<close> is a halt with its
  reason, \<open>Inr\<close> the state for the next round. The step event is emitted after the
  charge is deducted and before the logic function runs. The program counter moves past
  the opcode before the logic function runs; PUSH moves it past its immediate bytes and
  a jump sets it. An exceptional halt consumes all remaining gas.
\<close>

definition interpreter_step ::
  "EVM \<Rightarrow> Interpreter \<Rightarrow> (halt_reason \<times> Interpreter) + Interpreter" where
  "interpreter_step evm s =
     (let rs = runState s in
      if pc rs \<ge> length (code rs) then Inl (Halt_Stop, s)
      else
        (let op = code rs ! pc rs in
         case lookup_opcode evm op of
           None \<Rightarrow> Inl (exceptional_halt INVALID_OPCODE s)
         | Some d \<Rightarrow>
             if length (stack rs) < minStack d then Inl (exceptional_halt STACK_UNDERFLOW s)
             else if length (stack rs) - minStack d + maxStack d > 1024
               then Inl (exceptional_halt STACK_OVERFLOW s)
             else if isStatic rs \<and> state_mutating d rs
               then Inl (exceptional_halt STATIC_STATE_CHANGE s)
             else
               (let charge = gasFn d rs (op_baseFee d) in
                if charge > gasLeft rs then Inl (exceptional_halt OUT_OF_GAS s)
                else
                  (let rs1 = rs\<lparr>gasLeft := gasLeft rs - charge\<rparr>;
                       ev = \<lparr>step_pc = pc rs1, step_opcode = op, step_name = op_name d,
                             step_gasLeft = gasLeft rs1, step_depth = depth rs1,
                             step_stack = stack rs1\<rparr>;
                       s1 = \<lparr>runState = logicFn d (rs1\<lparr>pc := pc rs1 + 1\<rparr>),
                             events = events s @ [ev]\<rparr>
                   in case haltReason (runState s1) of
                        None \<Rightarrow> Inr s1
                      | Some (Halt_Error e) \<Rightarrow> Inl (exceptional_halt e s1)
                      | Some h \<Rightarrow> Inl (h, s1)))))"

partial_function (option) interpreter_run ::
  "EVM \<Rightarrow> Interpreter \<Rightarrow> (halt_reason \<times> Interpreter) option" where
  "interpreter_run evm s =
     (case interpreter_step evm s of
        Inl halted \<Rightarrow> Some halted
      | Inr s' \<Rightarrow> interpreter_run evm s')"

text \<open>
  \<open>runCode({code, gasLimit, ...})\<close>: the result holds the gas used, the returned bytes,
  the error of a failed execution, the final run state and the step events. \<open>None\<close> is
  an execution that does not end.
\<close>

record RunCodeOpts =
  opts_code :: Buffer
  opts_gasLimit :: int
  opts_data :: Buffer
  opts_isStatic :: bool
  opts_depth :: nat

record RunCodeResult = ExecResult +
  result_runState :: RunState
  result_events :: "InterpreterStep list"

definition initial_RunState :: "RunCodeOpts \<Rightarrow> RunState" where
  "initial_RunState opts =
     \<lparr>pc = 0, gasLeft = opts_gasLimit opts, stack = [], memory = [], returnData = [],
      code = opts_code opts, caller = [], address = [], callValue = 0,
      callData = opts_data opts, isStatic = opts_isStatic opts, depth = opts_depth opts,
      runLogs = [], refund = 0, haltReason = None\<rparr>"

definition runCode :: "EVM \<Rightarrow> RunCodeOpts \<Rightarrow> RunCodeResult option" where
  "runCode evm opts =
     (case interpreter_run evm \<lparr>runState = initial_RunState opts, events = []\<rparr> of
        None \<Rightarrow> None
      | Some (reason, s) \<Rightarrow>
          Some \<lparr>executionGasUsed = opts_gasLimit opts - gasLeft (runState s),
                returnValue = (case reason of
                                 Halt_Return d \<Rightarrow> d
                               | Halt_Revert d \<Rightarrow> d
                               | _ \<Rightarrow> []),
                exceptionError = (case reason of
                                    Halt_Error e \<Rightarrow> Some (new_EvmError e)
                                  | Halt_Revert d \<Rightarrow> Some (new_EvmError REVERT)
                                  | _ \<Rightarrow> None),
                result_runState = runState s,
                result_events = events s\<rparr>)"

text \<open>The custom opcode of the test and the code that the third test runs.\<close>

definition testOpcode :: AddOpcode where
  "testOpcode =
     InstallOpcode 0x21 ''TEST'' 333 (\<lambda>rs gas. gas + 33) (\<lambda>rs. stack_push 1 rs) None"

definition add_and_return_code :: Buffer where
  "add_and_return_code =
     [0x60, 0x04, 0x60, 0x01, 0x01, 0x60, 0x00, 0x52, 0x60, 0x01, 0x60, 0x1F, 0xF3]"

definition demo_fees :: "string \<Rightarrow> int" where
  "demo_fees n = (if n = ''RETURN'' then 0 else 3)"

text \<open>The run state of the third test, with its gas limit \<open>g\<close>, at a given program counter, gas, stack
  and memory.\<close>

definition test_state :: "int \<Rightarrow> nat \<Rightarrow> int \<Rightarrow> word256 list \<Rightarrow> Buffer \<Rightarrow> RunState" where
  "test_state g pc' gas st mem =
     (initial_RunState \<lparr>opts_code = add_and_return_code, opts_gasLimit = g, opts_data = [],
                         opts_isStatic = False, opts_depth = 0\<rparr>)
       \<lparr>pc := pc', gasLeft := gas, stack := st, memory := mem\<rparr>"

section \<open>The RLP codec: decoding what was encoded\<close>

lemma be_value_snoc: "be_value (bs @ [b]) = be_value bs * 256 + unat b"
  by (simp add: be_value_def)

lemma unat_of_nat_byte: "k < 256 \<Longrightarrow> unat (of_nat k :: byte) = k"
  by (simp add: unat_of_nat)

lemma be_value_be_bytes: "be_value (be_bytes n) = n"
proof (induction n rule: be_bytes.induct)
  case (1 n)
  show ?case
  proof (cases "n = 0")
    case True
    then show ?thesis by (simp add: be_bytes.simps be_value_def)
  next
    case False
    then have "be_bytes n = be_bytes (n div 256) @ [of_nat (n mod 256)]"
      by (subst be_bytes.simps) simp
    with 1 False show ?thesis
      by (simp add: be_value_snoc unat_of_nat_byte)
  qed
qed

lemma be_bytes_nonempty: "0 < n \<Longrightarrow> be_bytes n \<noteq> []"
  by (subst be_bytes.simps) simp

lemma hd_be_bytes: "0 < n \<Longrightarrow> hd (be_bytes n) \<noteq> 0"
proof (induction n rule: be_bytes.induct)
  case (1 n)
  then have eq: "be_bytes n = be_bytes (n div 256) @ [of_nat (n mod 256)]"
    by (subst be_bytes.simps) simp
  show ?case
  proof (cases "n div 256 = 0")
    case True
    then have "n < 256" by (simp add: div_eq_0_iff)
    moreover have "be_bytes n = [of_nat n]"
      using eq True \<open>n < 256\<close> by (simp add: be_bytes.simps)
    ultimately show ?thesis
      using 1(2) by (simp add: unat_of_nat_byte unat_eq_0 [symmetric])
  next
    case False
    then have "hd (be_bytes (n div 256)) \<noteq> 0" "be_bytes (n div 256) \<noteq> []"
      using 1 by (simp_all add: be_bytes_nonempty)
    then show ?thesis by (simp add: eq)
  qed
qed

lemma length_be_bytes: "n < 256 ^ k \<Longrightarrow> length (be_bytes n) \<le> k"
proof (induction k arbitrary: n)
  case 0
  then show ?case by (simp add: be_bytes.simps)
next
  case (Suc k)
  show ?case
  proof (cases "n = 0")
    case True
    then show ?thesis by (simp add: be_bytes.simps)
  next
    case False
    then have eq: "be_bytes n = be_bytes (n div 256) @ [of_nat (n mod 256)]"
      by (subst be_bytes.simps) simp
    have "n div 256 < 256 ^ k"
      using Suc.prems by (simp add: less_mult_imp_div_less mult.commute)
    then show ?thesis using Suc.IH eq by simp
  qed
qed

lemma length_be_bytes_64: "n < 2 ^ 64 \<Longrightarrow> length (be_bytes n) \<le> 8"
  using length_be_bytes [of n 8] by simp


lemma decode'_single:
  "unat b < 128 \<Longrightarrow> decode' (b # rest) = Inr (RBytes [b], rest)"
  by (subst decode'.simps) (simp add: slice_def)

lemma decode'_short_bytes:
  assumes "unat b = length bs + 128" and "length bs < 56"
    and "\<not> (length bs = 1 \<and> unat (hd bs) < 128)"
  shows "decode' (b # bs @ rest) = Inr (RBytes bs, rest)"
  using assms
  by (subst decode'.simps) (auto simp: safeSlice_def slice_def Let_def)

lemma decodeLength_be_bytes: "0 < n \<Longrightarrow> decodeLength (be_bytes n) = Inr n"
  by (simp add: decodeLength_def be_value_be_bytes be_bytes_nonempty hd_be_bytes)

lemma decode'_long_bytes:
  assumes "unat b = 183 + length (be_bytes (length bs))" and "56 \<le> length bs"
    and "length bs < 2 ^ 64"
  shows "decode' (b # be_bytes (length bs) @ bs @ rest) = Inr (RBytes bs, rest)"
proof -
  let ?lb = "be_bytes (length bs)"
  have pos: "0 < length bs" using assms(2) by arith
  then have l0: "0 < length ?lb" using be_bytes_nonempty [of "length bs"] by simp
  have l8: "length ?lb \<le> 8" using assms(3) by (rule length_be_bytes_64)
  have dl: "decodeLength ?lb = Inr (length bs)"
    using pos by (rule decodeLength_be_bytes)
  have ne: "bs \<noteq> []" using assms(2) by auto
  show ?thesis
    using assms l8 l0 ne
    by (subst decode'.simps) (simp add: safeSlice_def slice_def Let_def dl)
qed

lemma decode'_short_list:
  assumes "unat b = length p + 192" and "length p < 56" and "decode_items p = Inr xs"
  shows "decode' (b # p @ rest) = Inr (RList xs, rest)"
  using assms
  by (subst decode'.simps) (simp add: safeSlice_def slice_def Let_def)

lemma decode'_long_list:
  assumes "unat b = 247 + length (be_bytes (length p))" and "56 \<le> length p"
    and "decode_items p = Inr xs"
  shows "decode' (b # be_bytes (length p) @ p @ rest) = Inr (RList xs, rest)"
proof -
  let ?lb = "be_bytes (length p)"
  have pos: "0 < length p" using assms(2) by arith
  then have l0: "0 < length ?lb" using be_bytes_nonempty [of "length p"] by simp
  have dl: "decodeLength ?lb = Inr (length p)"
    using pos by (rule decodeLength_be_bytes)
  have ne: "p \<noteq> []" using assms(2) by auto
  show ?thesis
    using assms l0 ne
    by (subst decode'.simps) (simp add: safeSlice_def slice_def Let_def dl)
qed

lemma RLP_encode_nonempty: "RLP_encode x \<noteq> []"
  by (cases x) (auto simp: encodeLength_def Let_def)

text \<open>The prefix written by \<open>encodeLength\<close>: its first byte and the bytes after it.\<close>

lemma encodeLength_short:
  "len < 56 \<Longrightarrow> off \<le> 192 \<Longrightarrow>
     \<exists>b. encodeLength len off = [b] \<and> unat b = len + off"
proof -
  assume "len < 56" and "off \<le> 192"
  then have "len + off < 256" by arith
  then have "unat (of_nat (len + off) :: byte) = len + off"
    by (rule unat_of_nat_byte)
  then show ?thesis
    using \<open>len < 56\<close> by (simp add: encodeLength_def del: of_nat_add)
qed

lemma encodeLength_long:
  assumes "56 \<le> len" and "len < 2 ^ 64" and "off \<le> 192"
  shows "\<exists>b. encodeLength len off = b # be_bytes len
             \<and> unat b = off + 55 + length (be_bytes len)"
proof -
  have "length (be_bytes len) \<le> 8" using assms(2) by (rule length_be_bytes_64)
  then have "off + 55 + length (be_bytes len) < 256" using assms(3) by arith
  then have "unat (of_nat (off + 55 + length (be_bytes len)) :: byte)
               = off + 55 + length (be_bytes len)"
    by (rule unat_of_nat_byte)
  then show ?thesis using assms(1) by (simp add: encodeLength_def Let_def del: of_nat_add)
qed

lemma decode_items_encoded:
  assumes "\<And>x rest. x \<in> set xs \<Longrightarrow> length (RLP_encode x) < 2 ^ 64
             \<Longrightarrow> decode' (RLP_encode x @ rest) = Inr (x, rest)"
    and "length (concat (map RLP_encode xs)) < 2 ^ 64"
  shows "decode_items (concat (map RLP_encode xs)) = Inr xs"
  using assms
proof (induction xs)
  case Nil
  then show ?case by (simp add: decode_items.simps)
next
  case (Cons x xs)
  let ?r = "concat (map RLP_encode xs)"
  have lx: "length (RLP_encode x) < 2 ^ 64" and lr: "length ?r < 2 ^ 64"
    using Cons.prems(2) by simp_all
  have d: "decode' (RLP_encode x @ ?r) = Inr (x, ?r)"
    using Cons.prems(1) lx by simp
  have r: "decode_items ?r = Inr xs"
    using Cons.IH Cons.prems(1) lr by simp
  have ne: "RLP_encode x \<noteq> []" by (rule RLP_encode_nonempty)
  show ?case
    using d r ne by (subst decode_items.simps) simp
qed

lemma decode'_RLP_encode:
  "length (RLP_encode x) < 2 ^ 64 \<Longrightarrow> decode' (RLP_encode x @ rest) = Inr (x, rest)"
proof (induction x arbitrary: rest)
  case (RBytes bs)
  show ?case
  proof (cases "length bs = 1 \<and> unat (hd bs) < 128")
    case True
    then obtain b where "bs = [b]" by (cases bs) auto
    with True show ?thesis by (simp add: decode'_single)
  next
    case False
    then have enc: "RLP_encode (RBytes bs) = encodeLength (length bs) 128 @ bs"
      by auto
    show ?thesis
    proof (cases "length bs < 56")
      case True
      then obtain b where "encodeLength (length bs) 128 = [b]" "unat b = length bs + 128"
        using encodeLength_short [of "length bs" 128] by auto
      then show ?thesis
        using decode'_short_bytes [of b bs rest] True False unfolding enc by simp
    next
      case f2: False
      have "length bs < 2 ^ 64"
        using RBytes unfolding enc by simp
      then have l64: "length bs < 2 ^ 64" .
      then obtain b where "encodeLength (length bs) 128 = b # be_bytes (length bs)"
          "unat b = 128 + 55 + length (be_bytes (length bs))"
        using encodeLength_long [of "length bs" 128] f2 by auto
      then show ?thesis
        using decode'_long_bytes [of b bs rest] f2 l64 unfolding enc by simp
    qed
  qed
next
  case (RList xs)
  let ?p = "concat (map RLP_encode xs)"
  have enc: "RLP_encode (RList xs) = encodeLength (length ?p) 192 @ ?p"
    by (simp add: Let_def)
  have lp: "length ?p < 2 ^ 64"
    using RList.prems unfolding enc by simp
  have items: "decode_items ?p = Inr xs"
    using RList.IH lp by (intro decode_items_encoded) auto
  show ?case
  proof (cases "length ?p < 56")
    case True
    then obtain b where "encodeLength (length ?p) 192 = [b]" "unat b = length ?p + 192"
      using encodeLength_short [of "length ?p" 192] by auto
    then show ?thesis
      using decode'_short_list [of b ?p xs rest] True items unfolding enc by simp
  next
    case False
    then obtain b where "encodeLength (length ?p) 192 = b # be_bytes (length ?p)"
        "unat b = 192 + 55 + length (be_bytes (length ?p))"
      using encodeLength_long [of "length ?p" 192] lp by auto
    then show ?thesis
      using decode'_long_list [of b ?p xs rest] False items unfolding enc by simp
  qed
qed

section \<open>The storage encodings: decoding what was encoded\<close>

lemma length_drop_less: "xs \<noteq> [] \<Longrightarrow> a < b \<Longrightarrow> length xs + a - b < length xs"
  by (cases xs) auto

lemma decode'_remainder:
  "decode' input = Inr (d, remainder) \<Longrightarrow> length remainder < length input"
  by (subst (asm) decode'.simps)
     (auto simp: Let_def length_drop_less split: if_splits sum.splits)

lemma decode_items_unguarded:
  "decode_items innerRemainder =
     (if innerRemainder = [] then Inr []
      else case decode' innerRemainder of
        Inl e \<Rightarrow> Inl e
      | Inr (d, remainder) \<Rightarrow>
          (case decode_items remainder of
             Inl e \<Rightarrow> Inl e
           | Inr decoded \<Rightarrow> Inr (d # decoded)))"
  by (subst decode_items.simps)
     (auto simp: decode'_remainder split: sum.splits)

declare RLP_encode.simps [simp del]

lemma RLP_decode_RLP_encode:
  "length (RLP_encode x) < 2 ^ 64 \<Longrightarrow> RLP_decode (RLP_encode x) = Inr x"
  using decode'_RLP_encode [of x "[]"]
  by (simp add: RLP_decode_def RLP_encode_nonempty)

lemma length_RLP_encode_RBytes: "length b \<le> length (RLP_encode (RBytes b))"
  by (simp add: RLP_encode.simps)

lemma length_concat_elem: "x \<in> set xs \<Longrightarrow> length x \<le> length (concat xs)"
  by (induction xs) auto

lemma length_RLP_encode_elem:
  "x \<in> set xs \<Longrightarrow> length (RLP_encode x) \<le> length (RLP_encode (RList xs))"
  using length_concat_elem [of "RLP_encode x" "map RLP_encode xs"]
  by (simp add: RLP_encode.simps Let_def)

lemma map_throwing_map:
  "(\<And>x. x \<in> set xs \<Longrightarrow> f x = Inr (g x)) \<Longrightarrow> map_throwing f xs = Inr (map g xs)"
  by (induction xs) simp_all

lemma be_value_hex_bytes: "be_value (hex_bytes n) = n"
  by (simp add: hex_bytes_def be_value_be_bytes) (simp add: be_value_def)

lemma length_hex_bytes_safe: "int n \<le> MAX_SAFE_INTEGER \<Longrightarrow> length (hex_bytes n) \<le> 7"
proof -
  assume "int n \<le> MAX_SAFE_INTEGER"
  then have "n < 256 ^ 7" by (simp add: MAX_SAFE_INTEGER_def)
  then have "length (be_bytes n) \<le> 7" by (rule length_be_bytes)
  then show ?thesis by (simp add: hex_bytes_def)
qed

lemma rlp_to_Log_Log_to_rlp: "rlp_to_Log (Log_to_rlp l) = Inr l"
proof -
  obtain a ts d where l: "l = (a, ts, d)" by (cases l)
  have "map_throwing rlp_to_Buffer (map RBytes ts) = Inr ts"
    by (induction ts) simp_all
  then show ?thesis by (simp add: l Log_to_rlp_def)
qed

lemma rlp_Decode_Logs_Encode:
  assumes "length (rlp_Encode_Logs ls) < 2 ^ 64"
  shows "rlp_Decode_Logs (rlp_Encode_Logs ls) = Inr ls"
proof -
  have "RLP_decode (rlp_Encode_Logs ls) = Inr (RList (map Log_to_rlp ls))"
    using assms unfolding rlp_Encode_Logs_def by (rule RLP_decode_RLP_encode)
  moreover have "map_throwing rlp_to_Log (map Log_to_rlp ls) = Inr ls"
    by (induction ls) (simp_all add: rlp_to_Log_Log_to_rlp)
  ultimately show ?thesis by (simp add: rlp_Decode_Logs_def)
qed

lemma Receipt_to_rlp_ok:
  assumes "isPreByzantium r \<or> isPostByzantium r" and "0 \<le> cumulativeBlockGasUsed r"
  shows "Receipt_to_rlp r = Inr (receipt_item r)"
  using assms
  by (auto simp: Receipt_to_rlp_def receipt_item_def isPreByzantium_def isPostByzantium_def
        intToBuffer_def bigIntToBuffer_def split: option.splits)

lemma rlp_to_Receipt_item:
  assumes "isPreByzantium r \<or> isPostByzantium r" and "0 \<le> cumulativeBlockGasUsed r"
    and "length (RLP_encode (receipt_item r)) < 2 ^ 64"
  shows "rlp_to_Receipt (receipt_item r) = Inr (persisted r)"
proof -
  let ?enc = "rlp_Encode_Logs (logs r)"
  have "length ?enc \<le> length (RLP_encode (RBytes ?enc))"
    by (rule length_RLP_encode_RBytes)
  also have "\<dots> \<le> length (RLP_encode (receipt_item r))"
    unfolding receipt_item_def by (rule length_RLP_encode_elem) simp
  finally have "length ?enc < 2 ^ 64" using assms(3) by simp
  then have logs: "rlp_Decode_Logs ?enc = Inr (logs r)"
    by (rule rlp_Decode_Logs_Encode)
  have gas: "bufferToBigInt (hex_bytes (nat (cumulativeBlockGasUsed r))) = cumulativeBlockGasUsed r"
    using assms(2) by (simp add: bufferToBigInt_def be_value_hex_bytes)
  from assms(1) show ?thesis
  proof
    assume "isPreByzantium r"
    then show ?thesis
      by (auto simp: receipt_item_def isPreByzantium_def persisted_def logs gas
            split: option.splits)
  next
    assume post: "isPostByzantium r"
    then obtain s where s: "status r = Some s" "0 \<le> s" "s \<le> MAX_SAFE_INTEGER"
        and sr: "stateRoot r = None"
      by (auto simp: isPostByzantium_def split: option.splits)
    have "length (hex_bytes (nat s)) \<le> 7"
      using s by (intro length_hex_bytes_safe) simp
    then have l32: "length (hex_bytes (nat s)) \<noteq> 32" by simp
    have toInt: "bufferToInt (hex_bytes (nat s)) = Inr (nat s)"
      using s by (simp add: bufferToInt_def bufferToBigInt_def be_value_hex_bytes)
    show ?thesis
      using s sr l32
      by (simp add: receipt_item_def persisted_def logs gas toInt)
  qed
qed

lemma rlp_Decode_Encode_Receipts:
  assumes "\<forall>r \<in> set rs. (isPreByzantium r \<or> isPostByzantium r) \<and> 0 \<le> cumulativeBlockGasUsed r"
  shows "(\<exists>encoded. rlp_Encode_Receipts rs = Inr encoded)
       \<and> (\<forall>encoded. rlp_Encode_Receipts rs = Inr encoded \<longrightarrow> length encoded < 2 ^ 64 \<longrightarrow>
             rlp_Decode_Receipts encoded = Inr (map persisted rs))"
proof -
  have items: "map_throwing Receipt_to_rlp rs = Inr (map receipt_item rs)"
    using assms by (intro map_throwing_map Receipt_to_rlp_ok) auto
  then have enc: "rlp_Encode_Receipts rs = Inr (RLP_encode (RList (map receipt_item rs)))"
    by (simp add: rlp_Encode_Receipts_def)
  have "rlp_Decode_Receipts (RLP_encode (RList (map receipt_item rs))) = Inr (map persisted rs)"
    if len: "length (RLP_encode (RList (map receipt_item rs))) < 2 ^ 64"
  proof -
    have dec: "RLP_decode (RLP_encode (RList (map receipt_item rs)))
                 = Inr (RList (map receipt_item rs))"
      using len by (rule RLP_decode_RLP_encode)
    have "rlp_to_Receipt (receipt_item r) = Inr (persisted r)" if "r \<in> set rs" for r
    proof -
      have "length (RLP_encode (receipt_item r))
              \<le> length (RLP_encode (RList (map receipt_item rs)))"
        using that by (intro length_RLP_encode_elem) simp
      then have "length (RLP_encode (receipt_item r)) < 2 ^ 64" using len by simp
      then show ?thesis using assms that by (intro rlp_to_Receipt_item) auto
    qed
    then have "map_throwing rlp_to_Receipt (map receipt_item rs) = Inr (map persisted rs)"
      by (induction rs) simp_all
    then show ?thesis by (simp add: rlp_Decode_Receipts_def dec)
  qed
  then show ?thesis by (simp add: enc)
qed

section \<open>Bounds on the length of an encoding\<close>

lemma length_be_bytes_le: "length (be_bytes n) \<le> n"
proof (induction n rule: be_bytes.induct)
  case (1 n)
  show ?case
  proof (cases "n = 0")
    case True
    then show ?thesis by (simp add: be_bytes.simps)
  next
    case False
    then have "be_bytes n = be_bytes (n div 256) @ [of_nat (n mod 256)]"
      by (subst be_bytes.simps) simp
    moreover have "n div 256 + 1 \<le> n" using False by (simp add: Suc_leI)
    ultimately show ?thesis using 1 False by simp
  qed
qed

lemma length_hex_bytes_le: "length (hex_bytes n) \<le> n + 1"
  using length_be_bytes_le [of n] by (simp add: hex_bytes_def)

lemma length_encodeLength_le: "length (encodeLength n off) \<le> n + 1"
  using length_be_bytes_le [of n] by (simp add: encodeLength_def Let_def)

lemma sum_list_length_concat_le:
  "(\<And>x. x \<in> set xs \<Longrightarrow> length (f x) \<le> g x)
     \<Longrightarrow> length (concat (map f xs)) \<le> sum_list (map g xs)"
  by (induction xs) (auto simp: add_mono)

lemma length_RLP_encode_le: "length (RLP_encode x) \<le> rlp_bound x"
proof (induction x)
  case (RBytes b)
  show ?case
    using length_encodeLength_le [of "length b" 128] by (simp add: RLP_encode.simps)
next
  case (RList xs)
  let ?p = "concat (map RLP_encode xs)"
  have "length ?p \<le> sum_list (map rlp_bound xs)"
    using RList by (rule sum_list_length_concat_le)
  then show ?case
    using length_encodeLength_le [of "length ?p" 192]
    by (simp add: RLP_encode.simps Let_def)
qed

lemma length_receipt_item_le:
  assumes "isPreByzantium r \<or> isPostByzantium r"
  shows "length (RLP_encode (receipt_item r)) \<le> Receipt_bound r"
proof -
  let ?first = "case stateRoot r of Some sr \<Rightarrow> sr | None \<Rightarrow> hex_bytes (nat (the (status r)))"
  let ?gas = "hex_bytes (nat (cumulativeBlockGasUsed r))"
  let ?logs = "rlp_Encode_Logs (logs r)"
  have first: "length ?first \<le> 32"
    using assms length_hex_bytes_safe [of "nat (the (status r))"]
    by (auto simp: isPreByzantium_def isPostByzantium_def split: option.splits)
  have gas: "length ?gas \<le> nat (cumulativeBlockGasUsed r) + 1"
    by (rule length_hex_bytes_le)
  have logs: "length ?logs \<le> rlp_bound (RList (map Log_to_rlp (logs r)))"
    unfolding rlp_Encode_Logs_def by (rule length_RLP_encode_le)
  have "length (RLP_encode (receipt_item r)) \<le> rlp_bound (receipt_item r)"
    by (rule length_RLP_encode_le)
  also have "\<dots> = 2 * ((2 * length ?first + 1) + (2 * length ?gas + 1) + (2 * length ?logs + 1)) + 1"
    by (simp add: receipt_item_def)
  also have "\<dots> \<le> Receipt_bound r"
  proof -
    have "2 * ((2 * a + 1) + (2 * b + 1) + (2 * c + 1)) + 1
            \<le> 2 * (65 + (2 * (g + 1) + 1) + (2 * l + 1)) + 1"
      if "a \<le> 32" "b \<le> g + 1" "c \<le> l" for a b c g l :: nat
      using that by arith
    from this [OF first gas logs] show ?thesis
      by (simp only: Receipt_bound_def)
  qed
  finally show ?thesis .
qed

lemma length_receipt_items_le:
  assumes "\<forall>r \<in> set rs. isPreByzantium r \<or> isPostByzantium r"
  shows "length (RLP_encode (RList (map receipt_item rs))) \<le> Receipts_bound rs"
proof -
  let ?p = "concat (map RLP_encode (map receipt_item rs))"
  have "length (concat (map (\<lambda>r. RLP_encode (receipt_item r)) rs))
          \<le> sum_list (map Receipt_bound rs)"
    using assms by (intro sum_list_length_concat_le length_receipt_item_le) auto
  then have "length ?p \<le> sum_list (map Receipt_bound rs)"
    by (simp add: comp_def)
  then show ?thesis
    using length_encodeLength_le [of "length ?p" 192]
    by (simp add: RLP_encode.simps Let_def Receipts_bound_def)
qed

lemma length_rlp_Encode_Receipts_le:
  assumes "\<forall>r \<in> set rs. (isPreByzantium r \<or> isPostByzantium r) \<and> 0 \<le> cumulativeBlockGasUsed r"
    and "rlp_Encode_Receipts rs = Inr encoded"
  shows "length encoded \<le> Receipts_bound rs"
proof -
  have "map_throwing Receipt_to_rlp rs = Inr (map receipt_item rs)"
    using assms(1) by (intro map_throwing_map Receipt_to_rlp_ok) auto
  then have "encoded = RLP_encode (RList (map receipt_item rs))"
    using assms(2) by (simp add: rlp_Encode_Receipts_def)
  then show ?thesis
    using length_receipt_items_le [of rs] assms(1) by simp
qed

lemma rlp_Receipts_stored:
  assumes "\<forall>r \<in> set rs. (isPreByzantium r \<or> isPostByzantium r) \<and> 0 \<le> cumulativeBlockGasUsed r"
    and "Receipts_bound rs < 2 ^ 64"
  shows "\<exists>encoded. rlp_Encode_Receipts rs = Inr encoded
           \<and> rlp_Decode_Receipts encoded = Inr (map persisted rs)"
proof -
  obtain encoded where enc: "rlp_Encode_Receipts rs = Inr encoded"
    using rlp_Decode_Encode_Receipts [OF assms(1)] by blast
  have "length encoded \<le> Receipts_bound rs"
    using assms(1) enc by (rule length_rlp_Encode_Receipts_le)
  then have "length encoded < 2 ^ 64" using assms(2) by simp
  then show ?thesis
    using rlp_Decode_Encode_Receipts [OF assms(1)] enc by simp
qed

section \<open>The transaction-hash index\<close>

lemma rlp_Encode_TxHash_ok:
  "int i \<le> MAX_SAFE_INTEGER \<Longrightarrow> rlp_Encode_TxHash (bh, i) = Inr (TxHash_entry bh i)"
  by (simp add: rlp_Encode_TxHash_def intToBuffer_def TxHash_entry_def)

lemma rlp_Decode_TxHash_entry:
  assumes "int i \<le> MAX_SAFE_INTEGER" and "length bh < 2 ^ 60"
  shows "rlp_Decode_TxHash (TxHash_entry bh i) = Inr (bh, i)"
proof -
  let ?x = "RList [RBytes bh, RBytes (hex_bytes i)]"
  have "length (hex_bytes i) \<le> 7" using assms(1) by (rule length_hex_bytes_safe)
  then have "rlp_bound ?x < 2 ^ 64" using assms(2) by simp
  then have "length (RLP_encode ?x) < 2 ^ 64"
    using length_RLP_encode_le [of ?x] by linarith
  then have "RLP_decode (RLP_encode ?x) = Inr ?x" by (rule RLP_decode_RLP_encode)
  moreover have "bufferToInt (hex_bytes i) = Inr i"
    using assms(1) by (simp add: bufferToInt_def bufferToBigInt_def be_value_hex_bytes)
  ultimately show ?thesis
    by (simp add: rlp_Decode_TxHash_def TxHash_entry_def)
qed

lemma delete_TxHash_indexes_lookup:
  "delete_TxHash_indexes txs d (ty, key) =
     (if ty = DBKey_TxHash \<and> key \<in> tx_hash ` set txs then None else d (ty, key))"
  by (induction txs arbitrary: d) (auto simp: delete_def)

lemma save_TxHash_indexes_other:
  "ty \<noteq> DBKey_TxHash \<or> key \<notin> tx_hash ` set txs \<Longrightarrow>
     snd (save_TxHash_indexes bh i txs d) (ty, key) = d (ty, key)"
  by (induction txs arbitrary: i d) (auto simp: put_def split: sum.splits)

lemma save_TxHash_indexes_no_error:
  "int (i + length txs) \<le> MAX_SAFE_INTEGER + 1 \<Longrightarrow> fst (save_TxHash_indexes bh i txs d) = None"
proof (induction txs arbitrary: i d)
  case Nil
  then show ?case by simp
next
  case (Cons t txs)
  then have "int i \<le> MAX_SAFE_INTEGER" by simp
  then show ?case using Cons by (simp add: rlp_Encode_TxHash_ok)
qed

lemma save_TxHash_indexes_hit:
  assumes "int (i + length txs) \<le> MAX_SAFE_INTEGER + 1" and "j < length txs"
    and "tx_hash (txs ! j) \<notin> tx_hash ` set (drop (Suc j) txs)"
  shows "snd (save_TxHash_indexes bh i txs d) (DBKey_TxHash, tx_hash (txs ! j))
           = Some (TxHash_entry bh (i + j))"
  using assms
proof (induction txs arbitrary: i j d)
  case Nil
  then show ?case by simp
next
  case (Cons t txs)
  have enc: "rlp_Encode_TxHash (bh, i) = Inr (TxHash_entry bh i)"
    using Cons.prems(1) by (intro rlp_Encode_TxHash_ok) simp
  show ?case
  proof (cases j)
    case 0
    then have "tx_hash t \<notin> tx_hash ` set txs" using Cons.prems(3) by simp
    then show ?thesis
      using 0 save_TxHash_indexes_other [of DBKey_TxHash "tx_hash t" txs bh "Suc i"]
      by (simp add: enc put_def)
  next
    case (Suc k)
    then show ?thesis
      using Cons.IH [of "Suc i" k] Cons.prems by (simp add: enc)
  qed
qed

lemma updateIndex_Save_db:
  assumes "int (length (transactions b)) \<le> MAX_SAFE_INTEGER + 1"
  shows "snd (updateIndex IndexOperation_Save IndexType_TxHash b m) = m\<lparr>db := saved_index_db m b\<rparr>"
proof -
  have "fst (save_TxHash_indexes (hash b) 0 (transactions b) (db m)) = None"
    using assms by (intro save_TxHash_indexes_no_error) simp
  then obtain d where "save_TxHash_indexes (hash b) 0 (transactions b) (db m) = (None, d)"
    by (cases "save_TxHash_indexes (hash b) 0 (transactions b) (db m)") auto
  then show ?thesis
    by (auto simp: updateIndex_def saved_index_db_def Let_def getBlock_number_def
          split: option.splits)
qed

lemma saved_index_db_Receipts:
  "saved_index_db m b (DBKey_Receipts, k) = db m (DBKey_Receipts, k)"
  by (simp add: saved_index_db_def Let_def delete_TxHash_indexes_lookup
        save_TxHash_indexes_other split: option.splits)

lemma saveReceipts_result:
  assumes "\<forall>r \<in> set receipts. (isPreByzantium r \<or> isPostByzantium r) \<and> 0 \<le> cumulativeBlockGasUsed r"
    and "int (length (transactions b)) \<le> MAX_SAFE_INTEGER + 1"
  shows "\<exists>encoded. rlp_Encode_Receipts receipts = Inr encoded
           \<and> saveReceipts m b receipts
               = Inr (m\<lparr>db := saved_index_db
                                (m\<lparr>db := put (db m) DBKey_Receipts (hash b) encoded\<rparr>) b\<rparr>)"
proof -
  obtain encoded where enc: "rlp_Encode_Receipts receipts = Inr encoded"
    using rlp_Decode_Encode_Receipts [OF assms(1)] by blast
  show ?thesis
    using updateIndex_Save_db [OF assms(2), of "m\<lparr>db := put (db m) DBKey_Receipts (hash b) encoded\<rparr>"]
    by (simp add: saveReceipts_def enc)
qed

lemma saveReceipts_db:
  assumes "saveReceipts m b receipts = Inr m'"
    and "int (length (transactions b)) \<le> MAX_SAFE_INTEGER + 1"
  shows "\<exists>encoded. rlp_Encode_Receipts receipts = Inr encoded
           \<and> m' = m\<lparr>db := saved_index_db
                              (m\<lparr>db := put (db m) DBKey_Receipts (hash b) encoded\<rparr>) b\<rparr>"
proof -
  obtain encoded where enc: "rlp_Encode_Receipts receipts = Inr encoded"
    using assms(1) by (auto simp: saveReceipts_def split: sum.splits)
  show ?thesis
    using assms(1)
      updateIndex_Save_db [OF assms(2), of "m\<lparr>db := put (db m) DBKey_Receipts (hash b) encoded\<rparr>"]
    by (simp add: saveReceipts_def enc)
qed

lemma saved_index_db_deleted:
  assumes "0 < config_txLookupLimit m"
    and "0 \<le> headers_height (chain m) - config_txLookupLimit m"
    and "blocks_by_number (chain m) (headers_height (chain m) - config_txLookupLimit m) = Some old"
    and "t \<in> set (transactions old)"
  shows "saved_index_db m b (DBKey_TxHash, tx_hash t) = None"
  using assms by (simp add: saved_index_db_def Let_def delete_TxHash_indexes_lookup)

lemma saved_index_db_written:
  assumes "config_txLookupLimit m = 0
           \<or> headers_height (chain m) - config_txLookupLimit m < number (header b)"
    and "int (length (transactions b)) \<le> MAX_SAFE_INTEGER + 1"
    and "i < length (transactions b)"
    and "tx_hash (transactions b ! i) \<notin> tx_hash ` set (drop (Suc i) (transactions b))"
    and "\<forall>old. 0 < config_txLookupLimit m
            \<and> 0 \<le> headers_height (chain m) - config_txLookupLimit m
            \<and> blocks_by_number (chain m) (headers_height (chain m) - config_txLookupLimit m) = Some old
            \<longrightarrow> tx_hash (transactions b ! i) \<notin> tx_hash ` set (transactions old)"
  shows "saved_index_db m b (DBKey_TxHash, tx_hash (transactions b ! i))
           = Some (TxHash_entry (hash b) i)"
proof -
  have hit: "snd (save_TxHash_indexes (hash b) 0 (transactions b) (db m))
               (DBKey_TxHash, tx_hash (transactions b ! i)) = Some (TxHash_entry (hash b) i)"
    using save_TxHash_indexes_hit [of 0 "transactions b" i "hash b" "db m"] assms(2,3,4)
    by simp
  show ?thesis
    using assms(1,5) hit
    by (auto simp: saved_index_db_def Let_def delete_TxHash_indexes_lookup split: option.splits)
qed

lemma updateIndex_Receipts:
  "db (snd (updateIndex operation ty b m)) (DBKey_Receipts, k) = db m (DBKey_Receipts, k)"
proof -
  have s: "snd (save_TxHash_indexes (hash b) 0 (transactions b) (db m)) (DBKey_Receipts, k)
             = db m (DBKey_Receipts, k)"
    by (simp add: save_TxHash_indexes_other)
  obtain err d where sv: "save_TxHash_indexes (hash b) 0 (transactions b) (db m) = (err, d)"
    by (cases "save_TxHash_indexes (hash b) 0 (transactions b) (db m)")
  then have d: "d (DBKey_Receipts, k) = db m (DBKey_Receipts, k)"
    using s by simp
  show ?thesis
    by (cases ty; cases operation)
       (auto simp: updateIndex_def Let_def sv d delete_TxHash_indexes_lookup
          split: option.splits sum.splits)
qed

lemma rlp_Encode_TxHash_Inr:
  "rlp_Encode_TxHash (bh, i) = Inr entry \<Longrightarrow> int i \<le> MAX_SAFE_INTEGER \<and> entry = TxHash_entry bh i"
  by (auto simp: rlp_Encode_TxHash_def intToBuffer_def TxHash_entry_def split: if_splits)

lemma sum_list_take_nth:
  "i \<le> length xs \<Longrightarrow> sum_list (map f (take i xs)) = (\<Sum>j<i. f (xs ! j))"
proof (induction i)
  case 0
  then show ?case by simp
next
  case (Suc i)
  then have "take (Suc i) xs = take i xs @ [xs ! i]"
    by (simp add: take_Suc_conv_app_nth)
  then show ?case using Suc by simp
qed

lemma getReceiptByTxHash_stored:
  assumes idx: "get (db m) DBKey_TxHash txHash = Some (TxHash_entry bh i)"
    and i: "int i \<le> MAX_SAFE_INTEGER" and bh: "length bh < 2 ^ 60"
    and rc: "get (db m) DBKey_Receipts bh = Some encoded"
    and dec: "rlp_Decode_Receipts encoded = Inr (map persisted receipts)"
    and il: "i < length receipts"
  shows "getReceiptByTxHash m txHash
           = Inr (Some ((persisted (receipts ! i))
                           \<lparr>bitvector := Some (logsBloom m (logs (receipts ! i)))\<rparr>,
                        bh, i, \<Sum>j<i. length (logs (receipts ! j))))"
proof -
  have gi: "getIndex m IndexType_TxHash txHash = Inr (Some (bh, i))"
    using idx rlp_Decode_TxHash_entry [OF i bh] by (simp add: getIndex_def)
  have gr: "getReceipts m bh False False = Inr (map persisted receipts)"
    using rc dec by (simp add: getReceipts_def)
  have sum: "sum_list (map (\<lambda>r. length (logs r)) (slice (map persisted receipts) 0 i))
               = (\<Sum>j<i. length (logs (receipts ! j)))"
    using il sum_list_take_nth [of i receipts "\<lambda>r. length (logs r)"]
    by (simp add: slice_def take_map comp_def persisted_def)
  have ne: "receipts \<noteq> []" using il by auto
  show ?thesis
    using il ne by (simp add: getReceiptByTxHash_def gi gr sum nth_opt_def persisted_def)
qed

section \<open>The loop of \<open>getLogs\<close>\<close>

lemma getReceipts_stored:
  assumes "get (db m) DBKey_Receipts bh = Some (RLP_encode (RList (map receipt_item rs)))"
    and "\<forall>r \<in> set rs. (isPreByzantium r \<or> isPostByzantium r) \<and> 0 \<le> cumulativeBlockGasUsed r"
    and "Receipts_bound rs < 2 ^ 64"
  shows "getReceipts m bh False False = Inr (map persisted rs)"
proof -
  have "map_throwing Receipt_to_rlp rs = Inr (map receipt_item rs)"
    using assms(2) by (intro map_throwing_map Receipt_to_rlp_ok) auto
  then have "rlp_Encode_Receipts rs = Inr (RLP_encode (RList (map receipt_item rs)))"
    by (simp add: rlp_Encode_Receipts_def)
  then have "rlp_Decode_Receipts (RLP_encode (RList (map receipt_item rs))) = Inr (map persisted rs)"
    using rlp_Receipts_stored [OF assms(2,3)] by simp
  then show ?thesis
    using assms(1) by (simp add: getReceipts_def)
qed

lemma filter_throwing_filter:
  "(\<And>x. x \<in> set xs \<Longrightarrow> f x = Inr (p x)) \<Longrightarrow> filter_throwing f xs = Inr (filter p xs)"
  by (induction xs) simp_all

lemma filter_throwing_Inr:
  "filter_throwing f xs = Inr ys \<Longrightarrow> ys = filter (\<lambda>x. f x = Inr True) xs"
proof (induction xs arbitrary: ys)
  case Nil
  then show ?case by simp
next
  case (Cons x xs)
  then show ?case by (auto split: sum.splits if_splits)
qed

lemma topics_match_null_first: "topics_match (Topic_null # rest) l = Inr True"
  by simp

lemma length_block_entries:
  "length (block_entries b ri li rs) = sum_list (map (\<lambda>r. length (logs r)) rs)"
  by (induction rs arbitrary: ri li) simp_all

lemma upto_Cons: "i \<le> k \<Longrightarrow> [i..k] = i # [i + 1..k]"
  by (simp add: upto_rec1)

lemma getLogs_loop_collects:
  assumes "getLogs_loop m i to' a t acc sz = Inr res"
  shows "\<exists>k. i - 1 \<le> k \<and> (k \<le> to' \<or> k = i - 1)
           \<and> res = acc @ concat (map (block_logs m a t) [i..k])
           \<and> (k < to' \<longrightarrow>
                 limit_reached m (length res) (sz + sum_list (map (block_size m a t) [i..k])))
           \<and> (\<forall>j. i \<le> j \<and> j < k \<and> block_checked m a t j \<longrightarrow>
                 \<not> limit_reached m (length (acc @ concat (map (block_logs m a t) [i..j])))
                       (sz + sum_list (map (block_size m a t) [i..j])))"
  using assms
proof (induction m i to' a t acc sz arbitrary: res rule: getLogs_loop.induct)
  case (1 m i to' a t acc sz)
  show ?case
  proof (cases "i \<le> to'")
    case False
    then have "res = acc" using "1.prems" by (simp add: getLogs_loop.simps)
    then show ?thesis using False by (intro exI [of _ "i - 1"]) auto
  next
    case True
    show ?thesis
    proof (cases "getLogs_block m i a t")
      case (Inl e)
      then show ?thesis using "1.prems" True by (simp add: getLogs_loop.simps)
    next
      case (Inr r)
      show ?thesis
      proof (cases r)
        case None
        have bl: "block_logs m a t i = []" "block_size m a t i = 0" "\<not> block_checked m a t i"
          using Inr None by (simp_all add: block_logs_def block_size_def block_checked_def)
        have "getLogs_loop m (i + 1) to' a t acc sz = Inr res"
          using "1.prems" True Inr None by (simp add: getLogs_loop.simps)
        from "1.IH"(1) [OF True Inr None this]
        obtain k where k0: "i + 1 - 1 \<le> k" "k \<le> to' \<or> k = i + 1 - 1"
          and k: "res = acc @ concat (map (block_logs m a t) [i + 1..k])"
          "k < to' \<longrightarrow> limit_reached m (length res)
                          (sz + sum_list (map (block_size m a t) [i + 1..k]))"
          "\<forall>j. i + 1 \<le> j \<and> j < k \<and> block_checked m a t j \<longrightarrow>
               \<not> limit_reached m (length (acc @ concat (map (block_logs m a t) [i + 1..j])))
                     (sz + sum_list (map (block_size m a t) [i + 1..j]))"
          by blast
        have k1: "i \<le> k" "k \<le> to' \<or> k = i" using k0 by simp_all
        have up: "[i..j] = i # [i + 1..j]" if "i \<le> j" for j
          using that by (rule upto_Cons)
        have "\<not> limit_reached m (length (acc @ concat (map (block_logs m a t) [i..j])))
                     (sz + sum_list (map (block_size m a t) [i..j]))"
          if "i \<le> j" "j < k" "block_checked m a t j" for j
        proof (cases "j = i")
          case True
          then show ?thesis using that bl by simp
        next
          case False
          then have "i + 1 \<le> j" using that by simp
          then show ?thesis using k(3) that up [of j] bl by simp
        qed
        then show ?thesis
          using k k1 True up [of k] bl by (intro exI [of _ k]) auto
      next
        case (Some ls)
        have bl: "block_logs m a t i = ls" "block_size m a t i = JSON_byteLength m ls"
          "block_checked m a t i"
          using Inr Some by (simp_all add: block_logs_def block_size_def block_checked_def)
        show ?thesis
        proof (cases "limit_reached m (length (acc @ ls)) (sz + JSON_byteLength m ls)")
          case reached: True
          then have "res = acc @ ls"
            using "1.prems" True Inr Some
            by (simp add: getLogs_loop.simps limit_reached_def Let_def)
          then show ?thesis
            using reached bl True by (intro exI [of _ i]) auto
        next
          case notyet: False
          then have "getLogs_loop m (i + 1) to' a t (acc @ ls) (sz + JSON_byteLength m ls) = Inr res"
            using "1.prems" True Inr Some
            by (simp add: getLogs_loop.simps limit_reached_def Let_def)
          moreover have "\<not> (GET_LOGS_LIMIT m \<le> length (acc @ ls)
                            \<or> GET_LOGS_LIMIT_MEGABYTES m * 1048576 \<le> sz + JSON_byteLength m ls)"
            using notyet by (simp add: limit_reached_def)
          ultimately obtain k where k0: "i + 1 - 1 \<le> k" "k \<le> to' \<or> k = i + 1 - 1"
            and k: "res = (acc @ ls) @ concat (map (block_logs m a t) [i + 1..k])"
            "k < to' \<longrightarrow> limit_reached m (length res)
                      (sz + JSON_byteLength m ls + sum_list (map (block_size m a t) [i + 1..k]))"
            "\<forall>j. i + 1 \<le> j \<and> j < k \<and> block_checked m a t j \<longrightarrow>
               \<not> limit_reached m
                     (length ((acc @ ls) @ concat (map (block_logs m a t) [i + 1..j])))
                     (sz + JSON_byteLength m ls + sum_list (map (block_size m a t) [i + 1..j]))"
            using "1.IH"(2) [OF True Inr Some refl refl, of res] by blast
          have k1: "i \<le> k" "k \<le> to' \<or> k = i" using k0 by simp_all
          have up: "[i..j] = i # [i + 1..j]" if "i \<le> j" for j
            using that by (rule upto_Cons)
          have "\<not> limit_reached m (length (acc @ concat (map (block_logs m a t) [i..j])))
                       (sz + sum_list (map (block_size m a t) [i..j]))"
            if "i \<le> j" "j < k" "block_checked m a t j" for j
          proof (cases "j = i")
            case True
            then show ?thesis using notyet bl by simp
          next
            case False
            then have "i + 1 \<le> j" using that by simp
            then show ?thesis using k(3) that up [of j] bl by (simp add: add.assoc)
          qed
          then show ?thesis
            using k k1 True up [of k] bl by (intro exI [of _ k]) (auto simp: add.assoc)
        qed
      qed
    qed
  qed
qed

lemma enumerate_sorted:
  "sorted_wrt (\<lambda>x y. fst x < fst y) (enumerate n xs)"
  by (induction xs arbitrary: n) (auto simp: in_set_enumerate_eq)

lemma block_entries_members:
  "e \<in> set (block_entries b ri li rs) \<Longrightarrow> block e = b \<and> ri \<le> txIndex e \<and> li \<le> logIndex e"
proof (induction rs arbitrary: ri li)
  case Nil
  then show ?case by simp
next
  case (Cons r rs)
  from Cons.prems have
    "e \<in> set (map (\<lambda>(k, l). \<lparr>log' = l, block = b,
                           tx = nth_opt (transactions b) ri,
                           txIndex = ri, logIndex = k\<rparr>) (enumerate li (logs r)))
     \<or> e \<in> set (block_entries b (Suc ri) (li + length (logs r)) rs)"
    by simp
  then show ?case
  proof
    assume "e \<in> set (map (\<lambda>(k, l). \<lparr>log' = l, block = b,
                           tx = nth_opt (transactions b) ri,
                           txIndex = ri, logIndex = k\<rparr>) (enumerate li (logs r)))"
    then show ?thesis by (auto simp: in_set_enumerate_eq)
  next
    assume "e \<in> set (block_entries b (Suc ri) (li + length (logs r)) rs)"
    then show ?thesis using Cons.IH [of "Suc ri" "li + length (logs r)"] by auto
  qed
qed

lemma block_entries_sorted:
  "sorted_wrt (\<lambda>x y. txIndex x \<le> txIndex y \<and> logIndex x < logIndex y)
     (block_entries b ri li rs)"
proof (induction rs arbitrary: ri li)
  case Nil
  then show ?case by simp
next
  case (Cons r rs)
  let ?f = "\<lambda>(k, l). \<lparr>log' = l, block = b, tx = nth_opt (transactions b) ri,
                       txIndex = ri, logIndex = k\<rparr>"
  have first: "sorted_wrt (\<lambda>x y. txIndex x \<le> txIndex y \<and> logIndex x < logIndex y)
                 (map ?f (enumerate li (logs r)))"
    using enumerate_sorted [of li "logs r"]
    by (auto simp: sorted_wrt_map case_prod_beta elim: sorted_wrt_mono_rel [rotated])
  have cross: "txIndex x \<le> txIndex y \<and> logIndex x < logIndex y"
    if "x \<in> set (map ?f (enumerate li (logs r)))"
       "y \<in> set (block_entries b (Suc ri) (li + length (logs r)) rs)" for x y
    using that block_entries_members [of y b "Suc ri" "li + length (logs r)" rs]
    by (auto simp: in_set_enumerate_eq)
  show ?case
    using first Cons.IH [of "Suc ri" "li + length (logs r)"] cross
    by (simp add: sorted_wrt_append)
qed

lemma getLogs_block_entries:
  assumes "getLogs_block m i a t = Inr (Some ls)"
    and "\<forall>i b. blocks_by_number (chain m) i = Some b \<longrightarrow> number (header b) = i"
  shows "sorted_wrt entry_less ls \<and> (\<forall>e \<in> set ls. number (header (block e)) = i)"
proof -
  from assms(1) obtain b rs where b: "blocks_by_number (chain m) i = Some b"
      and sub: "\<exists>p. ls = filter p (block_entries b 0 0 rs)"
  proof -
    obtain b where b: "blocks_by_number (chain m) i = Some b"
      using assms(1) by (auto simp: getLogs_block_def getBlock_number_def split: option.splits)
    obtain rs where rs: "getReceipts m (hash b) False False = Inr rs"
      using assms(1) b
      by (auto simp: getLogs_block_def getBlock_number_def split: sum.splits)
    let ?e = "block_entries b 0 0 rs"
    let ?l1 = "case a of None \<Rightarrow> ?e
               | Some as \<Rightarrow> if length as > 0
                   then filter (\<lambda>l. list_ex (\<lambda>a. a = fst (log' l)) as) ?e else ?e"
    have l1: "\<exists>p. ?l1 = filter p ?e"
    proof (cases a)
      case None
      then show ?thesis by (auto intro: exI [of _ "\<lambda>_. True"])
    next
      case (Some as)
      then show ?thesis
        by (cases "length as > 0") (auto intro: exI [of _ "\<lambda>_. True"])
    qed
    have "\<exists>p. ls = filter p ?l1"
    proof (cases "length t > 0")
      case True
      then have "filter_throwing (topics_match t) ?l1 = Inr ls"
        using assms(1) b rs
        by (auto simp: getLogs_block_def getBlock_number_def Let_def
              split: sum.splits if_splits)
      then show ?thesis using filter_throwing_Inr by blast
    next
      case False
      then have "ls = ?l1"
        using assms(1) b rs
        by (auto simp: getLogs_block_def getBlock_number_def Let_def split: if_splits)
      then show ?thesis by (auto intro: exI [of _ "\<lambda>_. True"])
    qed
    then have "\<exists>p. ls = filter p ?e"
      using l1 by (metis filter_filter)
    then show ?thesis using that b by blast
  qed
  then obtain p where ls: "ls = filter p (block_entries b 0 0 rs)" by blast
  have num: "number (header b) = i" using assms(2) b by simp
  have mem: "block e = b" if "e \<in> set ls" for e
    using that block_entries_members [of e b 0 0 rs] by (simp add: ls)
  have "sorted_wrt (\<lambda>x y. txIndex x \<le> txIndex y \<and> logIndex x < logIndex y) ls"
    unfolding ls by (intro sorted_wrt_filter block_entries_sorted)
  then have "sorted_wrt entry_less ls"
  proof (rule sorted_wrt_mono_rel [rotated])
    fix x y
    assume "x \<in> set ls" "y \<in> set ls" "txIndex x \<le> txIndex y \<and> logIndex x < logIndex y"
    then show "entry_less x y"
      using mem [of x] mem [of y] by (auto simp: entry_less_def)
  qed
  then show ?thesis using mem num by simp
qed

lemma getLogs_loop_sorted:
  assumes "getLogs_loop m i to' a t acc sz = Inr res"
    and "\<forall>i b. blocks_by_number (chain m) i = Some b \<longrightarrow> number (header b) = i"
    and "sorted_wrt entry_less acc"
    and "\<forall>e \<in> set acc. number (header (block e)) < i"
  shows "sorted_wrt entry_less res"
  using assms
proof (induction m i to' a t acc sz arbitrary: res rule: getLogs_loop.induct)
  case (1 m i to' a t acc sz)
  show ?case
  proof (cases "i \<le> to'")
    case False
    then show ?thesis using "1.prems" by (simp add: getLogs_loop.simps)
  next
    case True
    show ?thesis
    proof (cases "getLogs_block m i a t")
      case (Inl e)
      then show ?thesis using "1.prems" True by (simp add: getLogs_loop.simps)
    next
      case (Inr r)
      show ?thesis
      proof (cases r)
        case None
        have "getLogs_loop m (i + 1) to' a t acc sz = Inr res"
          using "1.prems" True Inr None by (simp add: getLogs_loop.simps)
        moreover have "\<forall>e \<in> set acc. number (header (block e)) < i + 1"
          using "1.prems"(4) by auto
        ultimately show ?thesis
          using "1.IH"(1) [OF True Inr None] "1.prems"(2,3) by blast
      next
        case (Some ls)
        have ls: "sorted_wrt entry_less ls" "\<forall>e \<in> set ls. number (header (block e)) = i"
          using getLogs_block_entries [of m i a t ls] Inr Some "1.prems"(2) by simp_all
        have "\<forall>x \<in> set acc. \<forall>y \<in> set ls. entry_less x y"
          using "1.prems"(4) ls(2) by (auto simp: entry_less_def)
        then have acc': "sorted_wrt entry_less (acc @ ls)"
          using "1.prems"(3) ls(1) by (simp add: sorted_wrt_append)
        show ?thesis
        proof (cases "GET_LOGS_LIMIT m \<le> length (acc @ ls)
                       \<or> GET_LOGS_LIMIT_MEGABYTES m * 1048576 \<le> sz + JSON_byteLength m ls")
          case reached: True
          then have "res = acc @ ls"
            using "1.prems"(1) True Inr Some by (simp add: getLogs_loop.simps Let_def)
          then show ?thesis using acc' by simp
        next
          case notyet: False
          then have "getLogs_loop m (i + 1) to' a t (acc @ ls) (sz + JSON_byteLength m ls) = Inr res"
            using "1.prems"(1) True Inr Some by (simp add: getLogs_loop.simps Let_def)
          moreover have "\<forall>e \<in> set (acc @ ls). number (header (block e)) < i + 1"
            using "1.prems"(4) ls(2) by auto
          ultimately show ?thesis
            using "1.IH"(2) [OF True Inr Some refl refl notyet] "1.prems"(2) acc' by blast
        qed
      qed
    qed
  qed
qed

section \<open>Facts about the example data\<close>

lemma demo_receipts_shapes:
  "\<forall>r \<in> set demo_receipts.
     (isPreByzantium r \<or> isPostByzantium r) \<and> 0 \<le> cumulativeBlockGasUsed r"
  by (simp add: demo_receipts_def isPreByzantium_def isPostByzantium_def MAX_SAFE_INTEGER_def)

lemma demo_receipts_bound: "Receipts_bound demo_receipts < 2 ^ 64"
  by (simp add: Receipts_bound_def Receipt_bound_def demo_receipts_def demo_log_def
        Log_to_rlp_def)

lemma demo_saved:
  "\<exists>m'. saveReceipts demo_manager demo_block demo_receipts = Inr m'"
  using saveReceipts_result [OF demo_receipts_shapes, of demo_block demo_manager]
  by (auto simp: demo_block_def MAX_SAFE_INTEGER_def)

lemma demo_getIndex:
  "getIndex demo_manager IndexType_TxHash (replicate 32 0x01) = Inr (Some (replicate 32 0xB3, 0))"
  using rlp_Decode_TxHash_entry [of 0 "replicate 32 0xB3"]
  by (simp add: getIndex_def demo_manager_def new_ReceiptsManager_def get_def MAX_SAFE_INTEGER_def)

lemma demo_logsBloom_manager:
  "saveReceipts demo_manager demo_block demo_receipts = Inr m' \<Longrightarrow>
     logsBloom m' = logsBloom demo_manager"
proof -
  assume "saveReceipts demo_manager demo_block demo_receipts = Inr m'"
  then have "Bloom_add m' = Bloom_add demo_manager"
    using saveReceipts_db [of demo_manager demo_block demo_receipts m']
    by (auto simp: demo_block_def MAX_SAFE_INTEGER_def)
  then show ?thesis by (intro ext) (simp add: logsBloom_def)
qed

lemma hundred_logs_shapes:
  "\<forall>r \<in> set [hundred_logs_receipt].
     (isPreByzantium r \<or> isPostByzantium r) \<and> 0 \<le> cumulativeBlockGasUsed r"
  by (simp add: hundred_logs_receipt_def isPostByzantium_def MAX_SAFE_INTEGER_def)

lemma hundred_logs_bound: "Receipts_bound [hundred_logs_receipt] < 2 ^ 64"
  by (simp add: Receipts_bound_def Receipt_bound_def hundred_logs_receipt_def demo_log_def
        Log_to_rlp_def sum_list_replicate)

lemma hundred_logs_getLogs_block:
  "getLogs_block hundred_logs_manager 5 None []
     = Inr (Some (block_entries demo_block 0 0 [hundred_logs_receipt]))"
proof -
  have "get (db hundred_logs_manager) DBKey_Receipts (replicate 32 0xB5)
          = Some (RLP_encode (RList (map receipt_item [hundred_logs_receipt])))"
    by (simp add: hundred_logs_manager_def get_def put_def)
  then have "getReceipts hundred_logs_manager (replicate 32 0xB5) False False
               = Inr (map persisted [hundred_logs_receipt])"
    using hundred_logs_shapes hundred_logs_bound by (rule getReceipts_stored)
  moreover have "persisted hundred_logs_receipt = hundred_logs_receipt"
    by (simp add: persisted_def hundred_logs_receipt_def)
  moreover have "getBlock_number (chain hundred_logs_manager) 5 = Inr demo_block"
    by (simp add: hundred_logs_manager_def demo_manager_def new_ReceiptsManager_def
          demo_chain_def getBlock_number_def)
  moreover have "hash demo_block = replicate 32 0xB5"
    by (simp add: demo_block_def)
  ultimately show ?thesis
    by (simp add: getLogs_block_def)
qed

lemma hundred_logs_getLogs:
  "getLogs hundred_logs_manager demo_block demo_block None []
     = Inr (block_entries demo_block 0 0 [hundred_logs_receipt])"
proof -
  define es where "es = block_entries demo_block 0 0 [hundred_logs_receipt]"
  have n: "number (header demo_block) = 5" by (simp add: demo_block_def)
  have blk: "getLogs_block hundred_logs_manager 5 None [] = Inr (Some es)"
    unfolding es_def by (rule hundred_logs_getLogs_block)
  have l: "length es = 100"
    unfolding es_def by (simp add: length_block_entries hundred_logs_receipt_def)
  have lim: "GET_LOGS_LIMIT hundred_logs_manager = 3"
    by (simp add: hundred_logs_manager_def)
  have "getLogs hundred_logs_manager demo_block demo_block None [] = Inr es"
    unfolding getLogs_def n
    by (subst getLogs_loop.simps) (simp add: blk l lim Let_def)
  then show ?thesis by (simp only: es_def)
qed

lemma demo_chain_numbers:
  "\<forall>i b. blocks_by_number demo_chain i = Some b \<longrightarrow> number (header b) = i"
  by (simp add: demo_chain_def demo_block_def demo_old_block_def)

lemma demo_stored_getLogs_block:
  "getLogs_block demo_stored_manager 5 None (Topic_null # rest)
     = Inr (Some (block_entries demo_block 0 0 demo_receipts))"
proof -
  have "get (db demo_stored_manager) DBKey_Receipts (replicate 32 0xB5)
          = Some (RLP_encode (RList (map receipt_item demo_receipts)))"
    by (simp add: demo_stored_manager_def get_def put_def)
  then have "getReceipts demo_stored_manager (replicate 32 0xB5) False False
               = Inr (map persisted demo_receipts)"
    using demo_receipts_shapes demo_receipts_bound by (rule getReceipts_stored)
  moreover have "map persisted demo_receipts = demo_receipts"
    by (simp add: persisted_def demo_receipts_def)
  moreover have "getBlock_number (chain demo_stored_manager) 5 = Inr demo_block"
    by (simp add: demo_stored_manager_def demo_manager_def new_ReceiptsManager_def
          demo_chain_def getBlock_number_def)
  moreover have "hash demo_block = replicate 32 0xB5"
    by (simp add: demo_block_def)
  moreover have "demo_receipts \<noteq> []"
    by (simp add: demo_receipts_def)
  moreover have "filter_throwing (topics_match (Topic_null # rest)) es = Inr es" for es
    using filter_throwing_filter [of es "topics_match (Topic_null # rest)" "\<lambda>_. True"]
    by simp
  ultimately show ?thesis
    by (simp add: getLogs_block_def)
qed

lemma TxHash_entry_demo:
  "TxHash_entry (replicate 32 0xB5) 1 = 0xE2 # 0xA0 # replicate 32 0xB5 @ [0x01]"
  by (simp add: TxHash_entry_def RLP_encode.simps encodeLength_def hex_bytes_def be_bytes.simps)

section \<open>Running the model EVM\<close>

lemma EVM_create_defaults: "snd (EVM_create D custom) = D"
  by (simp add: EVM_create_def)

lemma lookup_deleted: "lookup_opcode (fst (EVM_create D [DeleteOpcode c])) c = None"
  by (simp add: lookup_opcode_def EVM_create_def)

lemma lookup_default: "lookup_opcode (fst (EVM_create D [])) c = D c"
  by (simp add: lookup_opcode_def EVM_create_def)

lemma interpreter_run_continue:
  "interpreter_step evm s = Inr s' \<Longrightarrow> interpreter_run evm s = interpreter_run evm s'"
  by (subst interpreter_run.simps) simp

lemma interpreter_run_halt:
  "interpreter_step evm s = Inl h \<Longrightarrow> interpreter_run evm s = Some h"
  by (subst interpreter_run.simps) simp

lemma run_deleted:
  "runCode (fst (EVM_create D [DeleteOpcode c]))
       \<lparr>opts_code = [c], opts_gasLimit = g, opts_data = dat, opts_isStatic = st,
        opts_depth = dp\<rparr>
     = Some \<lparr>executionGasUsed = g, returnValue = [],
             exceptionError = Some (new_EvmError INVALID_OPCODE),
             result_runState =
               (initial_RunState \<lparr>opts_code = [c], opts_gasLimit = g, opts_data = dat,
                                   opts_isStatic = st, opts_depth = dp\<rparr>)\<lparr>gasLeft := 0\<rparr>,
             result_events = []\<rparr>"
  by (subst runCode_def, subst interpreter_run.simps)
     (simp add: interpreter_step_def lookup_deleted exceptional_halt_def initial_RunState_def)

text \<open>The rounds of the third test on the default EVM.\<close>

lemma test_step_PUSH1:
  assumes "add_and_return_code ! pc' = 0x60" and "pc' + 1 < length add_and_return_code"
    and "nxt = pc' + 2" and "v = ucast (add_and_return_code ! (pc' + 1))"
    and "fee ''PUSH1'' \<le> gas" and "length st < 1024"
    and "st' = st @ [v]" and "gas' = gas - fee ''PUSH1''"
  shows "\<exists>evs'. interpreter_step (fst (EVM_create (DEFAULTS_table fee) []))
                  \<lparr>runState = test_state g pc' gas st mem, events = evs\<rparr>
           = Inr \<lparr>runState = test_state g nxt gas' st' mem, events = evs'\<rparr>"
  using assms
  by (simp add: interpreter_step_def lookup_default DEFAULTS_table_def op_PUSH1_def
        test_state_def initial_RunState_def stack_push_def
        state_mutating_def nth_opt_def Let_def)

lemma test_step_ADD:
  assumes "fee ''ADD'' \<le> gas"
  shows "\<exists>evs'. interpreter_step (fst (EVM_create (DEFAULTS_table fee) []))
                  \<lparr>runState = test_state g 4 gas [x, y] mem, events = evs\<rparr>
           = Inr \<lparr>runState = test_state g 5 (gas - fee ''ADD'') [y + x] mem, events = evs'\<rparr>"
  using assms
  by (simp add: interpreter_step_def lookup_default DEFAULTS_table_def op_ADD_def
        test_state_def initial_RunState_def add_and_return_code_def stack_push_def
        stack_pop_def state_mutating_def Let_def)

lemma test_step_MSTORE:
  assumes "fee ''MSTORE'' + 3 \<le> gas"
  shows "\<exists>evs'. interpreter_step (fst (EVM_create (DEFAULTS_table fee) []))
                  \<lparr>runState = test_state g 7 gas [5, 0] [], events = evs\<rparr>
           = Inr \<lparr>runState = test_state g 8 (gas - (fee ''MSTORE'' + 3)) []
                                 (replicate 31 0 @ [5]),
                  events = evs'\<rparr>"
proof -
  have w: "word_to_bytes32 5 = replicate 31 0 @ [5]"
    by (simp add: word_to_bytes32_def setLengthLeft_def be_bytes.simps)
  have c: "mem_expansion_charge [] 0 32 = 3"
    by (simp add: mem_expansion_charge_def mem_words_def mem_cost_def)
  have wr: "mem_write [] 0 (replicate 31 0 @ [5]) = replicate 31 0 @ [5]"
    by (simp add: mem_write_def mem_resize_def mem_words_def)
  show ?thesis
    using assms
    by (simp add: interpreter_step_def lookup_default DEFAULTS_table_def op_MSTORE_def
          test_state_def initial_RunState_def add_and_return_code_def
          stack_pop_def stack_peek_def state_mutating_def Let_def w c wr)
qed

lemma test_step_RETURN:
  assumes "fee ''RETURN'' \<le> gas"
  shows "\<exists>s'. interpreter_step (fst (EVM_create (DEFAULTS_table fee) []))
                  \<lparr>runState = test_state g 12 gas [1, 0x1F] (replicate 31 0 @ [5]),
                   events = evs\<rparr>
           = Inl (Halt_Return [5], s')"
proof -
  have c: "mem_expansion_charge (replicate 31 0 @ [5]) 31 (Suc 0) = 0"
    by (simp add: mem_expansion_charge_def mem_words_def mem_cost_def)
  have rd: "mem_read (replicate 31 0 @ [5]) 31 (Suc 0) = [5]"
    by (simp add: mem_read_def)
  show ?thesis
    using assms
    by (simp add: interpreter_step_def lookup_default DEFAULTS_table_def op_RETURN_def
          test_state_def initial_RunState_def add_and_return_code_def
          stack_pop_def stack_peek_def state_mutating_def Let_def c rd)
qed

lemma run_add_and_return:
  assumes "0 \<le> fee ''PUSH1''" "0 \<le> fee ''ADD''" "0 \<le> fee ''MSTORE''" "0 \<le> fee ''RETURN''"
    and "5 * fee ''PUSH1'' + fee ''ADD'' + fee ''MSTORE'' + 3 + fee ''RETURN'' \<le> g"
  shows "\<exists>s'. interpreter_run (fst (EVM_create (DEFAULTS_table fee) []))
                 \<lparr>runState = test_state g 0 g [] [], events = []\<rparr>
           = Some (Halt_Return [5], s')"
proof -
  let ?evm = "fst (EVM_create (DEFAULTS_table fee) [])"
  let ?p = "fee ''PUSH1''"
  let ?run = "interpreter_run ?evm"
  let ?m = "replicate 31 0 @ [5] :: Buffer"
  define g1 where "g1 = g - ?p"
  define g2 where "g2 = g1 - ?p"
  define g3 where "g3 = g2 - fee ''ADD''"
  define g4 where "g4 = g3 - ?p"
  define g5 where "g5 = g4 - (fee ''MSTORE'' + 3)"
  define g6 where "g6 = g5 - ?p"
  define g7 where "g7 = g6 - ?p"
  note gs = g1_def g2_def g3_def g4_def g5_def g6_def g7_def
  have "\<exists>e. interpreter_step ?evm \<lparr>runState = test_state g 0 g [] [], events = []\<rparr>
      = Inr \<lparr>runState = test_state g 2 g1 ([] @ [4]) [], events = e\<rparr>"
    by (rule test_step_PUSH1) (use assms in \<open>simp_all add: gs add_and_return_code_def\<close>)
  then obtain e1 where 1: "interpreter_step ?evm \<lparr>runState = test_state g 0 g [] [], events = []\<rparr>
      = Inr \<lparr>runState = test_state g 2 g1 [4] [], events = e1\<rparr>"
    by auto
  have "\<exists>e. interpreter_step ?evm \<lparr>runState = test_state g 2 g1 [4] [], events = e1\<rparr>
      = Inr \<lparr>runState = test_state g 4 g2 ([4] @ [1]) [], events = e\<rparr>"
    by (rule test_step_PUSH1) (use assms in \<open>simp_all add: gs add_and_return_code_def\<close>)
  then obtain e2 where 2: "interpreter_step ?evm \<lparr>runState = test_state g 2 g1 [4] [], events = e1\<rparr>
      = Inr \<lparr>runState = test_state g 4 g2 [4, 1] [], events = e2\<rparr>"
    by auto
  have "\<exists>e. interpreter_step ?evm \<lparr>runState = test_state g 4 g2 [4, 1] [], events = e2\<rparr>
      = Inr \<lparr>runState = test_state g 5 g3 [1 + 4] [], events = e\<rparr>"
    unfolding g3_def by (rule test_step_ADD) (use assms in \<open>simp_all add: gs\<close>)
  then obtain e3 where 3: "interpreter_step ?evm \<lparr>runState = test_state g 4 g2 [4, 1] [], events = e2\<rparr>
      = Inr \<lparr>runState = test_state g 5 g3 [5] [], events = e3\<rparr>"
    by auto
  have "\<exists>e. interpreter_step ?evm \<lparr>runState = test_state g 5 g3 [5] [], events = e3\<rparr>
      = Inr \<lparr>runState = test_state g 7 g4 ([5] @ [0]) [], events = e\<rparr>"
    by (rule test_step_PUSH1) (use assms in \<open>simp_all add: gs add_and_return_code_def\<close>)
  then obtain e4 where 4: "interpreter_step ?evm \<lparr>runState = test_state g 5 g3 [5] [], events = e3\<rparr>
      = Inr \<lparr>runState = test_state g 7 g4 [5, 0] [], events = e4\<rparr>"
    by auto
  have "\<exists>e. interpreter_step ?evm \<lparr>runState = test_state g 7 g4 [5, 0] [], events = e4\<rparr>
      = Inr \<lparr>runState = test_state g 8 g5 [] ?m, events = e\<rparr>"
    unfolding g5_def by (rule test_step_MSTORE) (use assms in \<open>simp_all add: gs\<close>)
  then obtain e5 where 5: "interpreter_step ?evm \<lparr>runState = test_state g 7 g4 [5, 0] [], events = e4\<rparr>
      = Inr \<lparr>runState = test_state g 8 g5 [] ?m, events = e5\<rparr>"
    by auto
  have "\<exists>e. interpreter_step ?evm \<lparr>runState = test_state g 8 g5 [] ?m, events = e5\<rparr>
      = Inr \<lparr>runState = test_state g 10 g6 ([] @ [1]) ?m, events = e\<rparr>"
    by (rule test_step_PUSH1) (use assms in \<open>simp_all add: gs add_and_return_code_def\<close>)
  then obtain e6 where 6: "interpreter_step ?evm \<lparr>runState = test_state g 8 g5 [] ?m, events = e5\<rparr>
      = Inr \<lparr>runState = test_state g 10 g6 [1] ?m, events = e6\<rparr>"
    by auto
  have "\<exists>e. interpreter_step ?evm \<lparr>runState = test_state g 10 g6 [1] ?m, events = e6\<rparr>
      = Inr \<lparr>runState = test_state g 12 g7 ([1] @ [0x1F]) ?m, events = e\<rparr>"
    by (rule test_step_PUSH1) (use assms in \<open>simp_all add: gs add_and_return_code_def\<close>)
  then obtain e7 where 7: "interpreter_step ?evm \<lparr>runState = test_state g 10 g6 [1] ?m, events = e6\<rparr>
      = Inr \<lparr>runState = test_state g 12 g7 [1, 0x1F] ?m, events = e7\<rparr>"
    by auto
  have "\<exists>s'. interpreter_step ?evm \<lparr>runState = test_state g 12 g7 [1, 0x1F] ?m, events = e7\<rparr>
      = Inl (Halt_Return [5], s')"
    by (rule test_step_RETURN) (use assms in \<open>simp_all add: gs\<close>)
  then obtain s' where 8: "interpreter_step ?evm
      \<lparr>runState = test_state g 12 g7 [1, 0x1F] ?m, events = e7\<rparr> = Inl (Halt_Return [5], s')"
    by auto
  have "?run \<lparr>runState = test_state g 0 g [] [], events = []\<rparr> = Some (Halt_Return [5], s')"
    by (simp only: interpreter_run_continue [OF 1] interpreter_run_continue [OF 2]
          interpreter_run_continue [OF 3] interpreter_run_continue [OF 4]
          interpreter_run_continue [OF 5] interpreter_run_continue [OF 6]
          interpreter_run_continue [OF 7] interpreter_run_halt [OF 8])
  then show ?thesis by blast
qed

section \<open>Precompiles: gas and result\<close>

lemma Math_ceil_div32_code: "Math_ceil_div32 n = int ((n + 31) div 32)"
proof -
  have "\<lceil>real n / 32\<rceil> = \<lceil>of_int (int n) / (of_int 32 :: real)\<rceil>"
    by simp
  also have "\<dots> = - (- int n div 32)"
    by (rule ceiling_divide_eq_div)
  also have "\<dots> = int ((n + 31) div 32)"
    by (simp add: zdiv_int)
  finally show ?thesis
    by (simp add: Math_ceil_div32_def)
qed

text \<open>
  C6: with call data \<open>d\<close>, both precompiles charge
  \<open>base + perWord * ceil(length d / 32)\<close>. When the gas limit is below that charge the
  result is the out-of-gas failure, which uses the whole gas limit and returns no bytes;
  otherwise the result is the hash of the data (SHA256 as it is, RIPEMD160 left-padded to
  32 bytes) and uses exactly the charge.
\<close>

theorem precompile_02_03_gas:
  assumes "data opts = Some d"
  shows "precompile02 sha256 opts =
           (let gasUsed = common_param opts ''gasPrices'' ''sha256''
                  + common_param opts ''gasPrices'' ''sha256Word'' * \<lceil>real (length d) / 32\<rceil>
            in if gasLimit opts < gasUsed
               then Inr \<lparr>executionGasUsed = gasLimit opts, returnValue = [],
                         exceptionError = Some \<lparr>error = OUT_OF_GAS, errorType = ''EvmError''\<rparr>\<rparr>
               else Inr \<lparr>executionGasUsed = gasUsed, returnValue = sha256 d,
                         exceptionError = None\<rparr>)
       \<and> precompile03 ripemd160 opts =
           (let gasUsed = common_param opts ''gasPrices'' ''ripemd160''
                  + common_param opts ''gasPrices'' ''ripemd160Word'' * \<lceil>real (length d) / 32\<rceil>
            in if gasLimit opts < gasUsed
               then Inr \<lparr>executionGasUsed = gasLimit opts, returnValue = [],
                         exceptionError = Some \<lparr>error = OUT_OF_GAS, errorType = ''EvmError''\<rparr>\<rparr>
               else Inr \<lparr>executionGasUsed = gasUsed,
                         returnValue = setLengthLeft (ripemd160 d) 32,
                         exceptionError = None\<rparr>)"
  using assms
  by (simp add: precompile02_def precompile03_def OOGResult_def new_EvmError_def
      Math_ceil_div32_def Let_def)

text \<open>
  A call with 33 bytes of data (two words) under \<open>demo_gasPrices\<close> (base price 60,
  word price 12): the charge is 84. A limit of 100 pays for the SHA256 precompile; a limit of 83 does not pay for
  RIPEMD160 (same prices here), which fails and uses all 83.
\<close>

theorem precompile_02_03_gas_witness:
  "data \<lparr>data = Some (replicate 33 1), gasLimit = 100, common_param = demo_gasPrices\<rparr>
     = Some (replicate 33 1)
   \<and> precompile02 (\<lambda>d. replicate 32 7)
        \<lparr>data = Some (replicate 33 1), gasLimit = 100, common_param = demo_gasPrices\<rparr>
     = Inr \<lparr>executionGasUsed = 84, returnValue = replicate 32 7, exceptionError = None\<rparr>
   \<and> precompile03 (\<lambda>d. replicate 20 7)
        \<lparr>data = Some (replicate 33 1), gasLimit = 83, common_param = demo_gasPrices\<rparr>
     = Inr \<lparr>executionGasUsed = 83, returnValue = [],
            exceptionError = Some \<lparr>error = OUT_OF_GAS, errorType = ''EvmError''\<rparr>\<rparr>
   \<and> precompile03 (\<lambda>d. replicate 20 7)
        \<lparr>data = Some (replicate 33 1), gasLimit = 84, common_param = demo_gasPrices\<rparr>
     = Inr \<lparr>executionGasUsed = 84, returnValue = replicate 12 0 @ replicate 20 7,
            exceptionError = None\<rparr>"
  using precompile_02_03_gas
          [of "\<lparr>data = Some (replicate 33 1), gasLimit = 100, common_param = demo_gasPrices\<rparr>"
              "replicate 33 1" "\<lambda>d. replicate 32 7" "\<lambda>d. replicate 20 7"]
        precompile_02_03_gas
          [of "\<lparr>data = Some (replicate 33 1), gasLimit = 83, common_param = demo_gasPrices\<rparr>"
              "replicate 33 1" "\<lambda>d. replicate 32 7" "\<lambda>d. replicate 20 7"]
        precompile_02_03_gas
          [of "\<lparr>data = Some (replicate 33 1), gasLimit = 84, common_param = demo_gasPrices\<rparr>"
              "replicate 33 1" "\<lambda>d. replicate 32 7" "\<lambda>d. replicate 20 7"]
  by (simp add: demo_gasPrices_def setLengthLeft_def Let_def)

section \<open>Receipts survive the store (C4)\<close>

text \<open>
  C4: for a list of receipts, each pre-Byzantium (a state root of 32 bytes) or
  post-Byzantium (a status integer), with gas that is not negative, encoding succeeds and
  decoding the encoding yields the receipts again: their state root or status, gas and
  logs. The bloom bit vector and the transaction type are attached by the queries and
  are not stored, so \<open>persisted r\<close> is \<open>r\<close> for a receipt as it is saved. The decoder
  picks the variant from the length of the first field: 32 bytes make a state root, any
  other length a status. (An encoding has fewer than \<open>2 ^ 64\<close> bytes for every buffer
  that JavaScript can hold.)
\<close>

theorem rlp_Receipts_roundtrip:
  assumes "\<forall>r \<in> set rs. (isPreByzantium r \<or> isPostByzantium r) \<and> 0 \<le> cumulativeBlockGasUsed r"
  shows "(\<exists>encoded. rlp_Encode_Receipts rs = Inr encoded)
       \<and> (\<forall>encoded. rlp_Encode_Receipts rs = Inr encoded \<longrightarrow> length encoded < 2 ^ 64 \<longrightarrow>
             rlp_Decode_Receipts encoded = Inr (map persisted rs))
       \<and> (\<forall>r0 gasUsed r2 rest r.
             rlp_to_Receipt (RList (RBytes r0 # RBytes gasUsed # RBytes r2 # rest)) = Inr r \<longrightarrow>
               (if length r0 = 32 then stateRoot r = Some r0 \<and> status r = None
                else stateRoot r = None \<and> status r \<noteq> None))"
proof -
  have "rlp_to_Receipt (RList (RBytes r0 # RBytes gasUsed # RBytes r2 # rest)) = Inr r \<Longrightarrow>
          (if length r0 = 32 then stateRoot r = Some r0 \<and> status r = None
           else stateRoot r = None \<and> status r \<noteq> None)" for r0 gasUsed r2 rest r
    by (auto split: sum.splits if_splits)
  then show ?thesis
    using rlp_Decode_Encode_Receipts [OF assms] by blast
qed

text \<open>The three example receipts.\<close>

theorem rlp_Receipts_roundtrip_witness:
  "list_all (\<lambda>r. (isPreByzantium r \<or> isPostByzantium r) \<and> 0 \<le> cumulativeBlockGasUsed r)
     demo_receipts
   \<and> (\<exists>encoded. rlp_Encode_Receipts demo_receipts = Inr encoded \<and> length encoded < 2 ^ 64
         \<and> rlp_Decode_Receipts encoded = Inr demo_receipts)"
proof -
  note rt = rlp_Receipts_roundtrip [OF demo_receipts_shapes]
  from rt obtain encoded where enc: "rlp_Encode_Receipts demo_receipts = Inr encoded"
    by blast
  have "length encoded \<le> Receipts_bound demo_receipts"
    using demo_receipts_shapes enc by (rule length_rlp_Encode_Receipts_le)
  then have len: "length encoded < 2 ^ 64"
    using demo_receipts_bound by simp
  have "map persisted demo_receipts = demo_receipts"
    by (simp add: demo_receipts_def persisted_def)
  then have "rlp_Decode_Receipts encoded = Inr demo_receipts"
    using rt enc len by simp
  moreover have "list_all (\<lambda>r. (isPreByzantium r \<or> isPostByzantium r)
                      \<and> 0 \<le> cumulativeBlockGasUsed r) demo_receipts"
    using demo_receipts_shapes by (simp add: list_all_iff)
  ultimately show ?thesis
    using enc len by blast
qed

section \<open>Saving receipts updates the transaction-hash index (C5)\<close>

text \<open>
  C5: let \<open>saveReceipts\<close> process a block while the chain head is at height \<open>h\<close> and
  the lookup limit is \<open>L\<close>. If \<open>L > 0\<close> and \<open>h - L \<ge> 0\<close>, then afterwards the index
  holds no entry for any transaction of the block at height \<open>h - L\<close>: the key is absent
  and \<open>getIndex\<close> answers null. If \<open>L = 0\<close> or the number of the saved block exceeds
  \<open>h - L\<close>, then the entry \<open>TxHash:{tx.hash} \<rightarrow> (block.hash, i)\<close> is written for each
  transaction \<open>i\<close> of the saved block: afterwards the value under the key is the RLP
  encoding of the list \<open>[block.hash, i]\<close>, which is what \<open>rlp(Encode, TxHash, ...)\<close>
  answers for it, and \<open>getIndex\<close> resolves the transaction hash to \<open>(block.hash, i)\<close>
  (for a block hash shorter than \<open>2 ^ 60\<close> bytes; a block hash has 32). This holds
  unless a later transaction of the block has the same hash (its entry is written over
  this one) or the block at height \<open>h - L\<close>, whose entries the same call deletes, has
  a transaction of that hash. (The asynchronous index update is run to its end; a
  block has at most \<open>2 ^ 53\<close> transactions, as every JavaScript array has.)
\<close>

theorem saveReceipts_TxHash_index:
  assumes "saveReceipts m b receipts = Inr m'"
    and "int (length (transactions b)) \<le> MAX_SAFE_INTEGER + 1"
  shows "(0 < config_txLookupLimit m \<longrightarrow>
            0 \<le> headers_height (chain m) - config_txLookupLimit m \<longrightarrow>
            (\<forall>old. blocks_by_number (chain m)
                     (headers_height (chain m) - config_txLookupLimit m) = Some old \<longrightarrow>
               (\<forall>t \<in> set (transactions old).
                  get (db m') DBKey_TxHash (tx_hash t) = None
                  \<and> getIndex m' IndexType_TxHash (tx_hash t) = Inr None)))
       \<and> (config_txLookupLimit m = 0
            \<or> headers_height (chain m) - config_txLookupLimit m < number (header b) \<longrightarrow>
            (\<forall>i < length (transactions b).
               tx_hash (transactions b ! i) \<notin> tx_hash ` set (drop (Suc i) (transactions b)) \<longrightarrow>
               (\<forall>old. 0 < config_txLookupLimit m
                   \<and> 0 \<le> headers_height (chain m) - config_txLookupLimit m
                   \<and> blocks_by_number (chain m)
                        (headers_height (chain m) - config_txLookupLimit m) = Some old
                   \<longrightarrow> tx_hash (transactions b ! i) \<notin> tx_hash ` set (transactions old)) \<longrightarrow>
               rlp_Encode_TxHash (hash b, i) = Inr (TxHash_entry (hash b) i)
               \<and> get (db m') DBKey_TxHash (tx_hash (transactions b ! i))
                   = Some (TxHash_entry (hash b) i)
               \<and> (length (hash b) < 2 ^ 60 \<longrightarrow>
                    rlp_Decode_TxHash (TxHash_entry (hash b) i) = Inr (hash b, i)
                    \<and> getIndex m' IndexType_TxHash (tx_hash (transactions b ! i))
                        = Inr (Some (hash b, i)))))"
proof -
  obtain encoded where m': "m' = m\<lparr>db := saved_index_db
                         (m\<lparr>db := put (db m) DBKey_Receipts (hash b) encoded\<rparr>) b\<rparr>"
    using saveReceipts_db [OF assms] by blast
  let ?m1 = "m\<lparr>db := put (db m) DBKey_Receipts (hash b) encoded\<rparr>"
  have del: "get (db m') DBKey_TxHash (tx_hash t) = None
             \<and> getIndex m' IndexType_TxHash (tx_hash t) = Inr None"
    if "0 < config_txLookupLimit m" "0 \<le> headers_height (chain m) - config_txLookupLimit m"
       "blocks_by_number (chain m) (headers_height (chain m) - config_txLookupLimit m) = Some old"
       "t \<in> set (transactions old)" for old t
  proof -
    have "get (db m') DBKey_TxHash (tx_hash t) = None"
      using saved_index_db_deleted [of ?m1 old t b] that by (simp add: m' get_def)
    then show ?thesis by (simp add: getIndex_def)
  qed
  have wr: "rlp_Encode_TxHash (hash b, i) = Inr (TxHash_entry (hash b) i)
            \<and> get (db m') DBKey_TxHash (tx_hash (transactions b ! i))
                = Some (TxHash_entry (hash b) i)
            \<and> (length (hash b) < 2 ^ 60 \<longrightarrow>
                 rlp_Decode_TxHash (TxHash_entry (hash b) i) = Inr (hash b, i)
                 \<and> getIndex m' IndexType_TxHash (tx_hash (transactions b ! i))
                     = Inr (Some (hash b, i)))"
    if "config_txLookupLimit m = 0
        \<or> headers_height (chain m) - config_txLookupLimit m < number (header b)"
       "i < length (transactions b)"
       "tx_hash (transactions b ! i) \<notin> tx_hash ` set (drop (Suc i) (transactions b))"
       "\<forall>old. 0 < config_txLookupLimit m
            \<and> 0 \<le> headers_height (chain m) - config_txLookupLimit m
            \<and> blocks_by_number (chain m) (headers_height (chain m) - config_txLookupLimit m) = Some old
            \<longrightarrow> tx_hash (transactions b ! i) \<notin> tx_hash ` set (transactions old)" for i
  proof -
    have safe: "int i \<le> MAX_SAFE_INTEGER" using that(2) assms(2) by simp
    then have enc: "rlp_Encode_TxHash (hash b, i) = Inr (TxHash_entry (hash b) i)"
      by (rule rlp_Encode_TxHash_ok)
    have stored: "get (db m') DBKey_TxHash (tx_hash (transactions b ! i))
                     = Some (TxHash_entry (hash b) i)"
      using saved_index_db_written [of ?m1 b i] that assms(2) by (simp add: m' get_def)
    have "rlp_Decode_TxHash (TxHash_entry (hash b) i) = Inr (hash b, i)
          \<and> getIndex m' IndexType_TxHash (tx_hash (transactions b ! i)) = Inr (Some (hash b, i))"
      if "length (hash b) < 2 ^ 60"
      using rlp_Decode_TxHash_entry [OF safe that] stored by (simp add: getIndex_def)
    then show ?thesis using enc stored by simp
  qed
  show ?thesis
    using del wr by blast
qed

text \<open>
  Saving the example block at height 5 with lookup limit 2 deletes the entry of the block
  at height 3, which the index resolved before, and writes the entries of the saved
  block: the second transaction is stored as the bytes \<open>E2 A0 B5 ... B5 01\<close> and
  resolves to the block hash and the index 1.
\<close>

theorem saveReceipts_TxHash_index_witness:
  "\<exists>m'. saveReceipts demo_manager demo_block demo_receipts = Inr m'
      \<and> int (length (transactions demo_block)) \<le> MAX_SAFE_INTEGER + 1
      \<and> getIndex demo_manager IndexType_TxHash (replicate 32 0x01)
          = Inr (Some (replicate 32 0xB3, 0))
      \<and> get (db m') DBKey_TxHash (replicate 32 0x01) = None
      \<and> getIndex m' IndexType_TxHash (replicate 32 0x01) = Inr None
      \<and> get (db m') DBKey_TxHash (replicate 32 0x12)
          = Some (0xE2 # 0xA0 # replicate 32 0xB5 @ [0x01])
      \<and> getIndex m' IndexType_TxHash (replicate 32 0x12) = Inr (Some (replicate 32 0xB5, 1))"
proof -
  obtain m' where save: "saveReceipts demo_manager demo_block demo_receipts = Inr m'"
    using demo_saved by blast
  have n: "int (length (transactions demo_block)) \<le> MAX_SAFE_INTEGER + 1"
    by (simp add: demo_block_def MAX_SAFE_INTEGER_def)
  note c5 = saveReceipts_TxHash_index [OF save n]
  have old: "get (db m') DBKey_TxHash (replicate 32 0x01) = None
             \<and> getIndex m' IndexType_TxHash (replicate 32 0x01) = Inr None"
    using c5 [THEN conjunct1]
    by (simp add: demo_manager_def new_ReceiptsManager_def demo_chain_def demo_old_block_def)
  have new: "get (db m') DBKey_TxHash (replicate 32 0x12)
               = Some (TxHash_entry (replicate 32 0xB5) 1)
             \<and> getIndex m' IndexType_TxHash (replicate 32 0x12)
                 = Inr (Some (replicate 32 0xB5, 1))"
    using c5 [THEN conjunct2, THEN mp, THEN spec, of 1]
    by (simp add: demo_manager_def new_ReceiptsManager_def demo_chain_def demo_old_block_def
          demo_block_def)
  show ?thesis
    using save n old new demo_getIndex TxHash_entry_demo by auto
qed

section \<open>Lookups that find nothing (C10)\<close>

text \<open>
  C10: \<open>getReceiptByTxHash\<close> answers null, and throws nothing, when the index has no
  entry for the hash, and also when the entry of the hash names a block hash under which
  no receipts are stored.
\<close>

theorem getReceiptByTxHash_null:
  "(get (db m) DBKey_TxHash txHash = None \<longrightarrow> getReceiptByTxHash m txHash = Inr None)
   \<and> (\<forall>blockHash i. getIndex m IndexType_TxHash txHash = Inr (Some (blockHash, i)) \<longrightarrow>
         get (db m) DBKey_Receipts blockHash = None \<longrightarrow>
         getReceiptByTxHash m txHash = Inr None)"
  by (simp add: getReceiptByTxHash_def getIndex_def getReceipts_def)

text \<open>
  In the example manager no entry exists for one hash, and the entry of another names
  a block without stored receipts.
\<close>

theorem getReceiptByTxHash_null_witness:
  "get (db demo_manager) DBKey_TxHash (replicate 32 0x77) = None
   \<and> getReceiptByTxHash demo_manager (replicate 32 0x77) = Inr None
   \<and> getIndex demo_manager IndexType_TxHash (replicate 32 0x01)
       = Inr (Some (replicate 32 0xB3, 0))
   \<and> get (db demo_manager) DBKey_Receipts (replicate 32 0xB3) = None
   \<and> getReceiptByTxHash demo_manager (replicate 32 0x01) = Inr None"
proof -
  have a: "get (db demo_manager) DBKey_TxHash (replicate 32 0x77) = None"
    by (simp add: demo_manager_def new_ReceiptsManager_def get_def)
  have b: "get (db demo_manager) DBKey_Receipts (replicate 32 0xB3) = None"
    by (simp add: demo_manager_def new_ReceiptsManager_def get_def)
  show ?thesis
    using getReceiptByTxHash_null [of demo_manager "replicate 32 0x77"]
      getReceiptByTxHash_null [of demo_manager "replicate 32 0x01"]
      a b demo_getIndex
    by simp
qed

section \<open>A saved receipt is found by its transaction hash (C3)\<close>

text \<open>
  C3: save a block and its receipts with \<open>saveReceipts\<close>, and let \<open>i\<close> be an index
  into the receipts whose transaction-hash entry was written and is in the index. Then
  \<open>getReceiptByTxHash\<close> of the hash of transaction \<open>i\<close> answers the stored receipt
  \<open>i\<close> with the bloom of its logs attached, the block hash, \<open>i\<close>, and as log index the
  number of logs of the receipts before \<open>i\<close>. A receipt that was saved with that bloom
  as its bit vector (and no transaction type) is answered as it was passed. (The
  receipts have the two shapes of C4, a block hash has 32 bytes, and the encoding has
  fewer than \<open>2 ^ 64\<close> bytes.)
\<close>

theorem getReceiptByTxHash_after_saveReceipts:
  assumes "saveReceipts m b receipts = Inr m'"
    and "\<forall>r \<in> set receipts. (isPreByzantium r \<or> isPostByzantium r) \<and> 0 \<le> cumulativeBlockGasUsed r"
    and "rlp_Encode_Receipts receipts = Inr encoded" and "length encoded < 2 ^ 64"
    and "length (hash b) = 32"
    and "i < length receipts" and "i < length (transactions b)"
    and "rlp_Encode_TxHash (hash b, i) = Inr entry"
    and "get (db m') DBKey_TxHash (tx_hash (transactions b ! i)) = Some entry"
  shows "getReceiptByTxHash m' (tx_hash (transactions b ! i))
           = Inr (Some ((persisted (receipts ! i))
                           \<lparr>bitvector := Some (logsBloom m' (logs (receipts ! i)))\<rparr>,
                        hash b, i, \<Sum>j<i. length (logs (receipts ! j))))
       \<and> (bitvector (receipts ! i) = Some (logsBloom m' (logs (receipts ! i)))
            \<and> txType (receipts ! i) = None \<longrightarrow>
          getReceiptByTxHash m' (tx_hash (transactions b ! i))
            = Inr (Some (receipts ! i, hash b, i, \<Sum>j<i. length (logs (receipts ! j)))))"
proof -
  let ?m1 = "m\<lparr>db := put (db m) DBKey_Receipts (hash b) encoded\<rparr>"
  have m': "m' = snd (updateIndex IndexOperation_Save IndexType_TxHash b ?m1)"
    using assms(1,3) by (simp add: saveReceipts_def)
  have rc: "get (db m') DBKey_Receipts (hash b) = Some encoded"
    using updateIndex_Receipts [of IndexOperation_Save IndexType_TxHash b ?m1 "hash b"]
    by (simp add: m' get_def put_def)
  have dec: "rlp_Decode_Receipts encoded = Inr (map persisted receipts)"
    using rlp_Decode_Encode_Receipts [OF assms(2)] assms(3,4) by simp
  have e: "int i \<le> MAX_SAFE_INTEGER" "entry = TxHash_entry (hash b) i"
    using rlp_Encode_TxHash_Inr [OF assms(8)] by simp_all
  have bh: "length (hash b) < 2 ^ 60" using assms(5) by simp
  have main: "getReceiptByTxHash m' (tx_hash (transactions b ! i))
           = Inr (Some ((persisted (receipts ! i))
                           \<lparr>bitvector := Some (logsBloom m' (logs (receipts ! i)))\<rparr>,
                        hash b, i, \<Sum>j<i. length (logs (receipts ! j))))"
    using assms(9) e rc dec assms(6) bh
    by (intro getReceiptByTxHash_stored) simp_all
  have "(persisted (receipts ! i))\<lparr>bitvector := Some (logsBloom m' (logs (receipts ! i)))\<rparr>
          = receipts ! i"
    if "bitvector (receipts ! i) = Some (logsBloom m' (logs (receipts ! i)))"
       "txType (receipts ! i) = None"
    using that by (simp add: persisted_def)
  then show ?thesis using main by simp
qed

text \<open>
  The example block and receipts, saved in the example manager: the third transaction
  is found with its receipt, index 2 and log index 1.
\<close>

theorem getReceiptByTxHash_after_saveReceipts_witness:
  "\<exists>m'. saveReceipts demo_manager demo_block demo_receipts = Inr m'
      \<and> getReceiptByTxHash m' (replicate 32 0x13)
           = Inr (Some ((demo_receipts ! 2)
                           \<lparr>bitvector := Some (logsBloom demo_manager [demo_log, demo_log])\<rparr>,
                        replicate 32 0xB5, 2, 1))"
proof -
  obtain m' where save: "saveReceipts demo_manager demo_block demo_receipts = Inr m'"
    using demo_saved by blast
  obtain encoded where enc: "rlp_Encode_Receipts demo_receipts = Inr encoded"
    using rlp_Decode_Encode_Receipts [OF demo_receipts_shapes] by blast
  have "length encoded \<le> Receipts_bound demo_receipts"
    using demo_receipts_shapes enc by (rule length_rlp_Encode_Receipts_le)
  then have len: "length encoded < 2 ^ 64"
    using demo_receipts_bound by simp
  have n: "int (length (transactions demo_block)) \<le> MAX_SAFE_INTEGER + 1"
    by (simp add: demo_block_def MAX_SAFE_INTEGER_def)
  have "\<exists>entry. rlp_Encode_TxHash (hash demo_block, 2) = Inr entry
               \<and> get (db m') DBKey_TxHash (replicate 32 0x13) = Some entry"
    using saveReceipts_db [OF save n]
      saved_index_db_written [of _ demo_block 2]
      rlp_Encode_TxHash_ok [of 2 "hash demo_block"]
    by (auto simp: demo_manager_def new_ReceiptsManager_def demo_chain_def demo_old_block_def
          demo_block_def get_def MAX_SAFE_INTEGER_def)
  then obtain entry where entry: "rlp_Encode_TxHash (hash demo_block, 2) = Inr entry"
      "get (db m') DBKey_TxHash (tx_hash (transactions demo_block ! 2)) = Some entry"
    by (auto simp: demo_block_def)
  have "getReceiptByTxHash m' (tx_hash (transactions demo_block ! 2))
          = Inr (Some ((persisted (demo_receipts ! 2))
                           \<lparr>bitvector := Some (logsBloom m' (logs (demo_receipts ! 2)))\<rparr>,
                        hash demo_block, 2, \<Sum>j<2. length (logs (demo_receipts ! j))))"
    using getReceiptByTxHash_after_saveReceipts
            [OF save demo_receipts_shapes enc len _ _ _ entry]
    by (simp add: demo_block_def demo_receipts_def)
  then show ?thesis
    using save demo_logsBloom_manager [OF save]
    by (simp add: demo_block_def demo_receipts_def persisted_def numeral_2_eq_2)
qed

section \<open>The limits of \<open>getLogs\<close> (C2)\<close>

text \<open>
  C2, as the code has it: \<open>getLogs\<close> appends the matching logs of one block at a time
  and tests the limits after a block's logs are appended. The result is the matching
  logs of the blocks from the first of the range up to some block \<open>k\<close>; iteration stops
  before the end of the range only when the number of collected logs has reached
  \<open>GET_LOGS_LIMIT\<close> or the accumulated size has reached \<open>GET_LOGS_LIMIT_MEGABYTES\<close>
  mebibytes; and at no earlier block where the limits are tested were they reached. So
  with \<open>GET_LOGS_LIMIT = 3\<close> the result holds all matching logs of the block at which
  the count reaches 3, which may be more than 3. When the chain answers each block
  number with a block of that number, the result is in ascending order of block number,
  transaction index and log index.
\<close>

theorem getLogs_limits:
  assumes "getLogs m from' to' addresses topics = Inr res"
  shows "\<exists>k. number (header from') - 1 \<le> k
           \<and> (k \<le> number (header to') \<or> k = number (header from') - 1)
           \<and> res = concat (map (block_logs m addresses topics) [number (header from')..k])
           \<and> (k < number (header to') \<longrightarrow>
                 limit_reached m (length res)
                   (sum_list (map (block_size m addresses topics) [number (header from')..k])))
           \<and> (\<forall>j. number (header from') \<le> j \<and> j < k \<and> block_checked m addresses topics j \<longrightarrow>
                 \<not> limit_reached m
                     (length (concat (map (block_logs m addresses topics)
                                        [number (header from')..j])))
                     (sum_list (map (block_size m addresses topics)
                                  [number (header from')..j])))
           \<and> ((\<forall>i b. blocks_by_number (chain m) i = Some b \<longrightarrow> number (header b) = i) \<longrightarrow>
                 sorted_wrt entry_less res)"
proof -
  have loop: "getLogs_loop m (number (header from')) (number (header to')) addresses topics [] 0
                = Inr res"
    using assms by (simp add: getLogs_def)
  have "sorted_wrt entry_less res"
    if "\<forall>i b. blocks_by_number (chain m) i = Some b \<longrightarrow> number (header b) = i"
    using getLogs_loop_sorted [OF loop that] by simp
  then show ?thesis
    using getLogs_loop_collects [OF loop] by auto
qed

text \<open>
  With \<open>GET_LOGS_LIMIT = 3\<close> and one block whose receipt has 100 logs, the query
  returns the 100 logs in order; the limit is reached after that block.
\<close>

theorem getLogs_limits_witness:
  "getLogs hundred_logs_manager demo_block demo_block None []
     = Inr (block_entries demo_block 0 0 [hundred_logs_receipt])
   \<and> sorted_wrt entry_less (block_entries demo_block 0 0 [hundred_logs_receipt])
   \<and> limit_reached hundred_logs_manager
        (length (block_entries demo_block 0 0 [hundred_logs_receipt])) 0"
proof -
  have "chain hundred_logs_manager = demo_chain"
    by (simp add: hundred_logs_manager_def demo_manager_def new_ReceiptsManager_def)
  then have "sorted_wrt entry_less (block_entries demo_block 0 0 [hundred_logs_receipt])"
    using getLogs_limits [OF hundred_logs_getLogs] demo_chain_numbers by auto
  moreover have "limit_reached hundred_logs_manager
        (length (block_entries demo_block 0 0 [hundred_logs_receipt])) 0"
    by (simp add: limit_reached_def hundred_logs_manager_def length_block_entries
          hundred_logs_receipt_def)
  ultimately show ?thesis
    using hundred_logs_getLogs by simp
qed

text \<open>
  As C2 was stated, such a query would return exactly 3 logs. It returns 100.
\<close>

theorem getLogs_limit_3_counterexample:
  "GET_LOGS_LIMIT hundred_logs_manager = 3
   \<and> length (block_logs hundred_logs_manager None [] 5) = 100
   \<and> getLogs hundred_logs_manager demo_block demo_block None []
       = Inr (block_entries demo_block 0 0 [hundred_logs_receipt])
   \<and> length (block_entries demo_block 0 0 [hundred_logs_receipt]) = 100
   \<and> length (block_entries demo_block 0 0 [hundred_logs_receipt]) \<noteq> 3"
proof -
  have l: "length (block_entries demo_block 0 0 [hundred_logs_receipt]) = 100"
    by (simp add: length_block_entries hundred_logs_receipt_def)
  have "GET_LOGS_LIMIT hundred_logs_manager = 3"
    by (simp add: hundred_logs_manager_def)
  moreover have "length (block_logs hundred_logs_manager None [] 5) = 100"
    by (simp add: block_logs_def hundred_logs_getLogs_block hundred_logs_receipt_def)
  ultimately show ?thesis
    using hundred_logs_getLogs l by simp
qed

section \<open>The topics filter of \<open>getLogs\<close> (C1)\<close>

text \<open>
  C1 says that a log is kept only if every position of the topics filter is satisfied.
  The callback of the filter returns in the first round of its loop, so only position 0
  is tested: the answer for a filter is the answer for its first topic alone. The
  example store holds three logs whose topic at index 1 is \<open>02...02\<close>; the query with
  topics \<open>[null, 09...09]\<close> returns all three.
\<close>

theorem getLogs_tests_first_topic_only:
  "getLogs demo_stored_manager demo_block demo_block None
       [Topic_null, Topic_value (replicate 32 9)]
     = Inr (block_entries demo_block 0 0 demo_receipts)
   \<and> map (\<lambda>e. nth_opt (fst (snd (log' e))) 1) (block_entries demo_block 0 0 demo_receipts)
       = [Some (replicate 32 2), Some (replicate 32 2), Some (replicate 32 2)]
   \<and> replicate 32 (2 :: byte) \<noteq> replicate 32 9
   \<and> (\<forall>topic rest l. topics_match (topic # rest) l = topics_match [topic] l)"
proof -
  define es where "es = block_entries demo_block 0 0 demo_receipts"
  have n: "number (header demo_block) = 5" by (simp add: demo_block_def)
  have blk: "getLogs_block demo_stored_manager 5 None [Topic_null, Topic_value (replicate 32 9)]
               = Inr (Some es)"
    unfolding es_def by (rule demo_stored_getLogs_block)
  have l: "length es = 3"
    unfolding es_def by (simp add: length_block_entries demo_receipts_def)
  have lim: "GET_LOGS_LIMIT demo_stored_manager = 10000"
      "GET_LOGS_LIMIT_MEGABYTES demo_stored_manager = 150"
      "JSON_byteLength demo_stored_manager es = 302"
    by (simp_all add: demo_stored_manager_def demo_manager_def new_ReceiptsManager_def
          demo_JSON_byteLength_def l)
  have "getLogs_loop demo_stored_manager 6 5 None [Topic_null, Topic_value (replicate 32 9)] es 302
          = Inr es"
    by (subst getLogs_loop.simps) simp
  then have "getLogs demo_stored_manager demo_block demo_block None
               [Topic_null, Topic_value (replicate 32 9)] = Inr es"
    unfolding getLogs_def n
    by (subst getLogs_loop.simps) (simp add: blk l lim Let_def)
  then have a: "getLogs demo_stored_manager demo_block demo_block None
               [Topic_null, Topic_value (replicate 32 9)]
                 = Inr (block_entries demo_block 0 0 demo_receipts)"
    by (simp only: es_def)
  have b: "map (\<lambda>e. nth_opt (fst (snd (log' e))) 1) (block_entries demo_block 0 0 demo_receipts)
             = [Some (replicate 32 2), Some (replicate 32 2), Some (replicate 32 2)]"
    by (simp add: demo_receipts_def demo_log_def nth_opt_def)
  have c: "topics_match (topic # rest) l = topics_match [topic] l" for topic rest l
    by simp
  show ?thesis
    using a b c by simp
qed

section \<open>A custom opcode is dispatched, charged and reported (C7)\<close>

text \<open>
  C7: an EVM made with the custom opcode \<open>0x21\<close> (name TEST, base fee 333, gas function
  \<open>g \<mapsto> g + 33\<close>, logic that pushes 1) runs the one-byte code \<open>21\<close> with a gas limit
  of at least 366 to a normal end: the gas used is 366, the stack is \<open>[1]\<close>, and one step
  event was emitted, at program counter 0 with the name TEST and the stack as it was
  before the logic function ran (empty).
\<close>

theorem custom_opcode_TEST:
  assumes "366 \<le> g"
  shows "runCode (fst (EVM_create D [testOpcode]))
           \<lparr>opts_code = [0x21], opts_gasLimit = g, opts_data = dat, opts_isStatic = st,
            opts_depth = dp\<rparr>
         = Some \<lparr>executionGasUsed = 366, returnValue = [], exceptionError = None,
                 result_runState =
                   (initial_RunState \<lparr>opts_code = [0x21], opts_gasLimit = g, opts_data = dat,
                                       opts_isStatic = st, opts_depth = dp\<rparr>)
                     \<lparr>pc := 1, gasLeft := g - 366, stack := [1]\<rparr>,
                 result_events =
                   [\<lparr>step_pc = 0, step_opcode = 0x21, step_name = ''TEST'',
                     step_gasLeft = g - 366, step_depth = dp, step_stack = []\<rparr>]\<rparr>"
proof -
  let ?evm = "fst (EVM_create D [testOpcode])"
  let ?rs0 = "initial_RunState \<lparr>opts_code = [0x21], opts_gasLimit = g, opts_data = dat,
                                   opts_isStatic = st, opts_depth = dp\<rparr>"
  let ?ev = "\<lparr>step_pc = 0, step_opcode = 0x21, step_name = ''TEST'',
              step_gasLeft = g - 366, step_depth = dp, step_stack = []\<rparr>"
  let ?s1 = "\<lparr>runState = ?rs0\<lparr>pc := 1, gasLeft := g - 366, stack := [1]\<rparr>, events = [?ev]\<rparr>"
  have 1: "interpreter_step ?evm \<lparr>runState = ?rs0, events = []\<rparr> = Inr ?s1"
    using assms
    by (simp add: interpreter_step_def lookup_opcode_def EVM_create_def testOpcode_def
          initial_RunState_def stack_push_def state_mutating_def Let_def)
  have 2: "interpreter_step ?evm ?s1 = Inl (Halt_Stop, ?s1)"
    by (simp add: interpreter_step_def initial_RunState_def)
  have "interpreter_run ?evm \<lparr>runState = ?rs0, events = []\<rparr> = Some (Halt_Stop, ?s1)"
    using interpreter_run_continue [OF 1] interpreter_run_halt [OF 2] by simp
  then show ?thesis
    by (simp add: runCode_def initial_RunState_def)
qed

theorem custom_opcode_TEST_witness:
  "\<exists>r. runCode (fst (EVM_create (DEFAULTS_table demo_fees) [testOpcode]))
           \<lparr>opts_code = [0x21], opts_gasLimit = 123456, opts_data = [], opts_isStatic = False,
            opts_depth = 0\<rparr> = Some r
      \<and> executionGasUsed r = 366
      \<and> stack (result_runState r) = [1]
      \<and> map step_name (result_events r) = [''TEST'']
      \<and> map step_pc (result_events r) = [0]
      \<and> map step_stack (result_events r) = [[]]"
  using custom_opcode_TEST [of 123456 "DEFAULTS_table demo_fees" "[]" False 0]
  by simp

section \<open>A custom entry with only an opcode deletes it (C8)\<close>

text \<open>
  C8: an EVM made with the custom entry \<open>{opcode: c}\<close> has no opcode at \<open>c\<close>, whatever
  the default table holds there. Running the one-byte code \<open>c\<close> halts with the error
  \<open>invalid opcode\<close> and uses the whole gas limit.
\<close>

theorem deleted_opcode_invalid:
  "\<exists>r. runCode (fst (EVM_create D [DeleteOpcode c]))
            \<lparr>opts_code = [c], opts_gasLimit = g, opts_data = dat, opts_isStatic = st,
             opts_depth = dp\<rparr> = Some r
      \<and> executionGasUsed r = g
      \<and> map_option (\<lambda>e. ERROR_value (error e)) (exceptionError r) = Some ''invalid opcode''
      \<and> returnValue r = []
      \<and> lookup_opcode (fst (EVM_create D [DeleteOpcode c])) c = None"
  by (simp add: run_deleted lookup_deleted new_EvmError_def)

theorem deleted_opcode_invalid_witness:
  "\<exists>r. runCode (fst (EVM_create (DEFAULTS_table demo_fees) [DeleteOpcode 0x20]))
            \<lparr>opts_code = [0x20], opts_gasLimit = 123456, opts_data = [], opts_isStatic = False,
             opts_depth = 0\<rparr> = Some r
      \<and> executionGasUsed r = 123456
      \<and> map_option (\<lambda>e. ERROR_value (error e)) (exceptionError r) = Some ''invalid opcode''"
  using deleted_opcode_invalid [of "DEFAULTS_table demo_fees" "0x20" 123456 "[]" False 0]
  by blast

section \<open>A custom overlay leaves the default opcodes alone (C9)\<close>

text \<open>
  C9: constructing an EVM gives back the default table as it received it, whatever the
  custom entries. So after an EVM that deletes opcode \<open>0x01\<close> (ADD) was constructed
  (running \<open>01\<close> on it is an invalid opcode that uses all gas), an EVM constructed
  without custom entries still has ADD: it runs \<open>60046001016000526001601FF3\<close> to the
  return value \<open>05\<close>. (The base fees of the chain rules are not negative, and the gas
  limit pays for the run: five PUSH1, one ADD, one MSTORE with one word of memory, one
  RETURN.)
\<close>

theorem default_opcodes_not_overridden:
  assumes "0 \<le> fee ''PUSH1''" "0 \<le> fee ''ADD''" "0 \<le> fee ''MSTORE''" "0 \<le> fee ''RETURN''"
    and "5 * fee ''PUSH1'' + fee ''ADD'' + fee ''MSTORE'' + 3 + fee ''RETURN'' \<le> g"
  shows "(\<forall>D custom. snd (EVM_create D custom) = D)
       \<and> (\<exists>r. runCode (fst (EVM_create (DEFAULTS_table fee) [DeleteOpcode 0x01]))
                  \<lparr>opts_code = [0x01], opts_gasLimit = g, opts_data = [],
                   opts_isStatic = False, opts_depth = 0\<rparr> = Some r
              \<and> executionGasUsed r = g
              \<and> exceptionError r = Some (new_EvmError INVALID_OPCODE))
       \<and> (\<exists>r. runCode (fst (EVM_create
                                (snd (EVM_create (DEFAULTS_table fee) [DeleteOpcode 0x01])) []))
                  \<lparr>opts_code = add_and_return_code, opts_gasLimit = g, opts_data = [],
                   opts_isStatic = False, opts_depth = 0\<rparr> = Some r
              \<and> returnValue r = [0x05]
              \<and> exceptionError r = None)"
proof -
  let ?opts = "\<lparr>opts_code = add_and_return_code, opts_gasLimit = g, opts_data = [],
                opts_isStatic = False, opts_depth = 0\<rparr>"
  obtain s' where run: "interpreter_run (fst (EVM_create (DEFAULTS_table fee) []))
                 \<lparr>runState = test_state g 0 g [] [], events = []\<rparr>
           = Some (Halt_Return [5], s')"
    using run_add_and_return [OF assms] by blast
  have init: "initial_RunState ?opts = test_state g 0 g [] []"
    by (simp add: test_state_def initial_RunState_def)
  have "\<exists>r. runCode (fst (EVM_create (DEFAULTS_table fee) [])) ?opts = Some r
          \<and> returnValue r = [0x05] \<and> exceptionError r = None"
    by (simp add: runCode_def init run)
  then show ?thesis
    by (simp add: EVM_create_defaults run_deleted)
qed

text \<open>The test's gas limit, with a base fee of 3 for each opcode but RETURN.\<close>

theorem default_opcodes_not_overridden_witness:
  "\<exists>r. runCode (fst (EVM_create
                       (snd (EVM_create (DEFAULTS_table demo_fees) [DeleteOpcode 0x01])) []))
            \<lparr>opts_code = add_and_return_code, opts_gasLimit = 123456, opts_data = [],
             opts_isStatic = False, opts_depth = 0\<rparr> = Some r
      \<and> returnValue r = [0x05]"
proof -
  have "\<exists>r. runCode (fst (EVM_create
                       (snd (EVM_create (DEFAULTS_table demo_fees) [DeleteOpcode 0x01])) []))
            \<lparr>opts_code = add_and_return_code, opts_gasLimit = 123456, opts_data = [],
             opts_isStatic = False, opts_depth = 0\<rparr> = Some r
      \<and> returnValue r = [0x05] \<and> exceptionError r = None"
    by (rule default_opcodes_not_overridden [THEN conjunct2, THEN conjunct2])
       (simp_all add: demo_fees_def)
  then show ?thesis by blast
qed

end
